theory Spec2Isabelle
  imports Complex_Main
begin

section \<open>Order creation of \<^verbatim>\<open>src/index.js\<close>: the handler of \<^verbatim>\<open>POST /api/orders\<close>\<close>

text \<open>
  The development embeds the handler \<^verbatim>\<open>app.post('/api/orders', ...)\<close> (lines 165-256 of
  \<^verbatim>\<open>src/index.js\<close>) as a function over an explicit world: the durable tables, the
  transaction of the one connection the handler uses, and the trace of store calls and
  of the response. Every awaited store call may throw; which call throws, and with which
  message, is given by a fault schedule.
\<close>

subsection \<open>JavaScript numbers\<close>

text \<open>
  A JavaScript number is an IEEE 754 double: a finite value, an infinity or \<^verbatim>\<open>NaN\<close>. A
  finite double is given by its exact value, a rational; the two zeros are one value here
  (the handler starts its total at \<^verbatim>\<open>+0\<close>, so the total is never \<^verbatim>\<open>-0\<close>, and a zero
  \<^verbatim>\<open>product_id\<close>, \<^verbatim>\<open>quantity\<close> or \<^verbatim>\<open>price_at_order\<close> is rejected whatever its sign).
\<close>

datatype jsnum = Fin rat | PosInf | NegInf | NaN

text \<open>
  The binary logarithm, rounded down: \<open>bits n\<close> for an integer \<open>n \<ge> 1\<close>, \<open>floor_log2 x\<close>
  for a rational \<open>x > 0\<close> (the exponent \<open>e\<close> with \<open>pow2 e \<le> x < pow2 (e + 1)\<close>).
\<close>

function bits :: "int \<Rightarrow> int" where
  "bits n = (if n < 2 then 0 else 1 + bits (n div 2))"
  by auto
termination
  by (relation "measure nat") auto

declare bits.simps [simp del]

definition floor_log2 :: "rat \<Rightarrow> int" where
  "floor_log2 x = (if 1 \<le> x then bits \<lfloor>x\<rfloor> else - (1 + bits (\<lceil>1 / x\<rceil> - 1)))"

definition pow2 :: "int \<Rightarrow> rat" where
  "pow2 k = (if 0 \<le> k then 2 ^ nat k else 1 / 2 ^ nat (- k))"

text \<open>Rounding to the nearest integer, a tie going to the even one.\<close>

definition round_even :: "rat \<Rightarrow> int" where
  "round_even y =
     (if y - of_int \<lfloor>y\<rfloor> < 1 / 2 then \<lfloor>y\<rfloor>
      else if 1 / 2 < y - of_int \<lfloor>y\<rfloor> then \<lfloor>y\<rfloor> + 1
      else if even \<lfloor>y\<rfloor> then \<lfloor>y\<rfloor> else \<lfloor>y\<rfloor> + 1)"

text \<open>
  The spacing of the doubles around \<open>r\<close>: 53 significant bits, and \<open>pow2 (- 1074)\<close> below
  the normal range.
\<close>

definition quantum :: "rat \<Rightarrow> rat" where
  "quantum r = pow2 (max (floor_log2 \<bar>r\<bar>) (- 1022) - 52)"

text \<open>
  The double nearest to a rational (round to nearest, ties to even): what \<^verbatim>\<open>JSON.parse\<close>
  makes of a number literal, what the conversion of a decimal string to a number gives,
  and how the exact result of an operation is rounded. A result of magnitude \<open>pow2 1024\<close>
  or more after rounding is an infinity.
\<close>

definition to_double :: "rat \<Rightarrow> jsnum" where
  "to_double r =
     (if r = 0 then Fin 0
      else if pow2 1024 \<le> \<bar>of_int (round_even (r / quantum r)) * quantum r\<bar>
        then (if 0 < r then PosInf else NegInf)
      else Fin (of_int (round_even (r / quantum r)) * quantum r))"

text \<open>\<^verbatim>\<open>x * y\<close> on numbers.\<close>

fun dmul :: "jsnum \<Rightarrow> jsnum \<Rightarrow> jsnum" where
  "dmul (Fin a) (Fin b) = to_double (a * b)"
| "dmul NaN y = NaN"
| "dmul x NaN = NaN"
| "dmul (Fin a) PosInf = (if a = 0 then NaN else if 0 < a then PosInf else NegInf)"
| "dmul (Fin a) NegInf = (if a = 0 then NaN else if 0 < a then NegInf else PosInf)"
| "dmul PosInf (Fin b) = (if b = 0 then NaN else if 0 < b then PosInf else NegInf)"
| "dmul NegInf (Fin b) = (if b = 0 then NaN else if 0 < b then NegInf else PosInf)"
| "dmul PosInf PosInf = PosInf"
| "dmul PosInf NegInf = NegInf"
| "dmul NegInf PosInf = NegInf"
| "dmul NegInf NegInf = PosInf"

text \<open>\<^verbatim>\<open>x + y\<close> on numbers.\<close>

fun dadd :: "jsnum \<Rightarrow> jsnum \<Rightarrow> jsnum" where
  "dadd (Fin a) (Fin b) = to_double (a + b)"
| "dadd NaN y = NaN"
| "dadd x NaN = NaN"
| "dadd PosInf NegInf = NaN"
| "dadd NegInf PosInf = NaN"
| "dadd PosInf y = PosInf"
| "dadd NegInf y = NegInf"
| "dadd x PosInf = PosInf"
| "dadd x NegInf = NegInf"

text \<open>\<^verbatim>\<open>!x\<close> on a number: \<^verbatim>\<open>0\<close> and \<^verbatim>\<open>NaN\<close> are falsy.\<close>

fun falsy :: "jsnum \<Rightarrow> bool" where
  "falsy (Fin a) = (a = 0)"
| "falsy NaN = True"
| "falsy x = False"

text \<open>\<^verbatim>\<open>x <= 0\<close> on a number: every comparison with \<^verbatim>\<open>NaN\<close> is false.\<close>

fun not_positive :: "jsnum \<Rightarrow> bool" where
  "not_positive (Fin a) = (a \<le> 0)"
| "not_positive NegInf = True"
| "not_positive x = False"

text \<open>
  The integer a number is, if it is one: the key a \<^verbatim>\<open>WHERE id = ?\<close> with that number as
  parameter can match.
\<close>

fun id_of :: "jsnum \<Rightarrow> int option" where
  "id_of (Fin a) = (if of_int \<lfloor>a\<rfloor> = a then Some \<lfloor>a\<rfloor> else None)"
| "id_of x = None"

subsection \<open>JavaScript values of the request body\<close>

text \<open>
  A property of the JSON body is absent (\<^verbatim>\<open>undefined\<close>), \<^verbatim>\<open>null\<close>, or a value of the type
  the interface documents for it: a number, a string, an array. A number is given by the
  exact value of its literal in the body; the handler sees the double nearest to it
  (\<open>to_number\<close>). Strings are lists of characters with codes below 256.
\<close>

datatype 'a jsfield = Undefined | Null | Val 'a

text \<open>
  The number a field is when it is used as one: \<^verbatim>\<open>undefined\<close> converts to \<^verbatim>\<open>NaN\<close> and
  \<^verbatim>\<open>null\<close> to \<^verbatim>\<open>0\<close>.
\<close>

fun to_number :: "rat jsfield \<Rightarrow> jsnum" where
  "to_number Undefined = NaN"
| "to_number Null = Fin 0"
| "to_number (Val r) = to_double r"

text \<open>\<^verbatim>\<open>!x\<close> for a number field: \<^verbatim>\<open>undefined\<close>, \<^verbatim>\<open>null\<close> and \<^verbatim>\<open>0\<close> are falsy.\<close>

definition falsy_num :: "rat jsfield \<Rightarrow> bool" where
  "falsy_num u = falsy (to_number u)"

text \<open>\<^verbatim>\<open>!x\<close> for a string: \<^verbatim>\<open>undefined\<close>, \<^verbatim>\<open>null\<close> and \<^verbatim>\<open>''\<close> are falsy.\<close>

fun falsy_str :: "string jsfield \<Rightarrow> bool" where
  "falsy_str Undefined = True"
| "falsy_str Null = True"
| "falsy_str (Val s) = (s = [])"

text \<open>\<^verbatim>\<open>!x\<close> for an array: only \<^verbatim>\<open>undefined\<close> and \<^verbatim>\<open>null\<close> are falsy (\<^verbatim>\<open>[]\<close> is truthy).\<close>

fun falsy_arr :: "'a list jsfield \<Rightarrow> bool" where
  "falsy_arr Undefined = True"
| "falsy_arr Null = True"
| "falsy_arr (Val xs) = False"

text \<open>\<^verbatim>\<open>x <= 0\<close> for a number field.\<close>

definition le_zero :: "rat jsfield \<Rightarrow> bool" where
  "le_zero u = not_positive (to_number u)"

text \<open>
  The value of a string or array field that the handler reads after its check. The check
  has excluded \<^verbatim>\<open>undefined\<close> and \<^verbatim>\<open>null\<close> by then (lemmas \<open>item_valid_fields\<close> and
  \<open>header_valid_fields\<close> below), so the default is never read by the handler.
\<close>

fun str_of :: "string jsfield \<Rightarrow> string" where
  "str_of (Val s) = s"
| "str_of _ = []"

fun arr_of :: "'a list jsfield \<Rightarrow> 'a list" where
  "arr_of (Val xs) = xs"
| "arr_of _ = []"

text \<open>
  \<^verbatim>\<open>String.prototype.trim\<close>: white space and line terminators are removed at both ends.
  Below code 256 these are TAB, LF, VT, FF, CR, SPACE and NBSP.
\<close>

definition js_space :: "char \<Rightarrow> bool" where
  "js_space c = (of_char c \<in> {9, 10, 11, 12, 13, 32, 160 :: nat})"

definition trim :: "string \<Rightarrow> string" where
  "trim s = rev (dropWhile js_space (rev (dropWhile js_space s)))"

text \<open>
  The text of a message: a concatenation of literal characters and of numbers embedded by a
  template literal. \<open>Number x\<close> stands for the characters \<^verbatim>\<open>`${x}`\<close> prints for the number
  \<open>x\<close>; they are not spelled out.
\<close>

datatype piece = Chars string | Number jsnum

type_synonym jstring = "piece list"

subsection \<open>Request, rows and response\<close>

text \<open>One element of \<^verbatim>\<open>items\<close> in the request body.\<close>

record item =
  product_id :: "rat jsfield"
  quantity :: "rat jsfield"
  name :: "string jsfield"
  price_at_order :: "rat jsfield"
  image_url :: "string jsfield"

text \<open>\<^verbatim>\<open>req.body\<close>, destructured as \<^verbatim>\<open>{ items, customerIdentifier, customerName }\<close>.\<close>

record request =
  items :: "item list jsfield"
  customerIdentifier :: "string jsfield"
  customerName :: "string jsfield"

text \<open>
  An element of \<^verbatim>\<open>orderItemsToInsert\<close>. The price is the value the store returned, kept
  as it is.
\<close>

record pending_item =
  ins_product_id :: jsnum
  ins_quantity :: jsnum
  ins_price_at_order :: rat
  ins_product_name :: string
  ins_image_url :: "string option"

text \<open>
  A row of table \<^verbatim>\<open>orders\<close>: the generated id, and the columns the handler writes, each
  holding the parameter as the handler passed it.
\<close>

record order_row =
  order_id :: int
  customer_identifier :: string
  customer_name :: string
  total_price :: jsnum
  status :: string

text \<open>A row of table \<^verbatim>\<open>order_items\<close>, likewise; \<open>None\<close> is SQL \<^verbatim>\<open>NULL\<close>.\<close>

record order_item_row =
  oi_order_id :: int
  oi_product_id :: jsnum
  oi_quantity :: jsnum
  oi_price_at_order :: rat
  oi_product_name :: string
  oi_image_url :: "string option"

text \<open>
  The tables: \<^verbatim>\<open>products\<close> maps a primary key to the price of that row, a decimal given
  by its exact value.
\<close>

record db =
  products :: "int \<rightharpoonup> rat"
  orders :: "order_row list"
  order_items :: "order_item_row list"

datatype body =
    Message jstring
  | Created int "string jsfield" "string jsfield" jsnum string string

datatype store_call =
    GetConnection
  | BeginTransaction
  | SelectPrice jsnum
  | InsertOrder string string jsnum string
  | InsertOrderItem int jsnum jsnum rat string "string option"
  | Commit
  | Rollback
  | Release

datatype event = Call store_call | Respond nat body

subsection \<open>The relational store\<close>

text \<open>
  Modelled from the spec: the store is the external collaborator of section 6 (the
  \<^verbatim>\<open>mysql2\<close> pool and connection, not part of the repository): \<^verbatim>\<open>beginTransaction\<close>,
  \<^verbatim>\<open>commit\<close> and \<^verbatim>\<open>rollback\<close> scoped to the acquired connection, a point query by primary
  key returning zero or one row, an insert returning the generated key, and acquire and
  release of a connection.

  \<open>durable\<close> holds the committed tables, \<open>txn\<close> the working copy of the open transaction
  (\<open>None\<close> when none is open), \<open>next_order_id\<close> the key the next insert into \<^verbatim>\<open>orders\<close>
  generates, \<open>trace\<close> the calls made so far and \<open>ncalls\<close> the number of awaited calls.
\<close>

record world =
  durable :: db
  txn :: "db option"
  next_order_id :: int
  trace :: "event list"
  ncalls :: nat

text \<open>
  A fault schedule: \<open>faults k = Some msg\<close> means that the awaited store call number \<open>k\<close>
  of the execution (counted from 0) throws an error with message \<open>msg\<close> and has no effect.
  Whether a call throws is the store's matter: a store that refuses a parameter (an
  infinite number, say) is a schedule with a fault at that call.
\<close>

type_synonym faults = "nat \<Rightarrow> string option"

text \<open>A call is recorded when it is made, whether it throws or not.\<close>

definition called :: "store_call \<Rightarrow> world \<Rightarrow> world" where
  "called c w = w\<lparr>trace := trace w @ [Call c], ncalls := Suc (ncalls w)\<rparr>"

definition attempt ::
  "faults \<Rightarrow> store_call \<Rightarrow> (world \<Rightarrow> 'a \<times> world) \<Rightarrow> world \<Rightarrow> (jstring + 'a) \<times> world" where
  "attempt faults c run w =
     (case faults (ncalls w) of
        Some msg \<Rightarrow> (Inl [Chars msg], called c w)
      | None \<Rightarrow> (case run (called c w) of (r, w') \<Rightarrow> (Inr r, w')))"

text \<open>The tables a statement sees, and a write to them (autocommit outside a transaction).\<close>

definition current :: "world \<Rightarrow> db" where
  "current w = (case txn w of Some d \<Rightarrow> d | None \<Rightarrow> durable w)"

definition store_write :: "(db \<Rightarrow> db) \<Rightarrow> world \<Rightarrow> world" where
  "store_write f w = (case txn w of Some d \<Rightarrow> w\<lparr>txn := Some (f d)\<rparr>
                            | None \<Rightarrow> w\<lparr>durable := f (durable w)\<rparr>)"

text \<open>\<^verbatim>\<open>pool.getConnection()\<close>\<close>

definition getConnection :: "faults \<Rightarrow> world \<Rightarrow> (jstring + unit) \<times> world" where
  "getConnection faults = attempt faults GetConnection (\<lambda>w. ((), w))"

text \<open>\<^verbatim>\<open>connection.beginTransaction()\<close>\<close>

definition beginTransaction :: "faults \<Rightarrow> world \<Rightarrow> (jstring + unit) \<times> world" where
  "beginTransaction faults =
     attempt faults BeginTransaction (\<lambda>w. ((), w\<lparr>txn := Some (current w)\<rparr>))"

text \<open>The price of the product row whose key is the number \<open>x\<close>, if there is one.\<close>

definition find_price :: "db \<Rightarrow> jsnum \<Rightarrow> rat option" where
  "find_price d x = (case id_of x of None \<Rightarrow> None | Some i \<Rightarrow> products d i)"

text \<open>
  \<^verbatim>\<open>connection.query('SELECT price FROM products WHERE id = ?', [x])\<close>: the rows, each
  the price of a row.
\<close>

definition select_price :: "faults \<Rightarrow> jsnum \<Rightarrow> world \<Rightarrow> (jstring + rat list) \<times> world" where
  "select_price faults x =
     attempt faults (SelectPrice x)
       (\<lambda>w. (case find_price (current w) x of None \<Rightarrow> [] | Some p \<Rightarrow> [p], w))"

text \<open>\<^verbatim>\<open>connection.query('INSERT INTO orders (...) VALUES (?, ?, ?, ?)', [...])\<close>: \<^verbatim>\<open>insertId\<close>.\<close>

definition insert_order ::
  "faults \<Rightarrow> string \<Rightarrow> string \<Rightarrow> jsnum \<Rightarrow> string \<Rightarrow> world \<Rightarrow> (jstring + int) \<times> world" where
  "insert_order faults ci cn tot st =
     attempt faults (InsertOrder ci cn tot st)
       (\<lambda>w. (next_order_id w,
              (store_write (\<lambda>d. d\<lparr>orders := orders d @
                  [\<lparr>order_id = next_order_id w, customer_identifier = ci, customer_name = cn,
                    total_price = tot, status = st\<rparr>]\<rparr>) w)
                \<lparr>next_order_id := next_order_id w + 1\<rparr>))"

text \<open>
  \<^verbatim>\<open>connection.query('INSERT INTO order_items (...) VALUES (?, ?, ?, ?, ?, ?)', [...])\<close>
  with the parameters
  \<^verbatim>\<open>[order_id, item.product_id, item.quantity, item.price_at_order, item.product_name, item.image_url]\<close>:
  the call as it is traced, and the row it adds.
\<close>

definition insert_call :: "int \<Rightarrow> pending_item \<Rightarrow> store_call" where
  "insert_call oid p =
     InsertOrderItem oid (ins_product_id p) (ins_quantity p) (ins_price_at_order p)
       (ins_product_name p) (ins_image_url p)"

definition item_row :: "int \<Rightarrow> pending_item \<Rightarrow> order_item_row" where
  "item_row oid p =
     \<lparr>oi_order_id = oid, oi_product_id = ins_product_id p, oi_quantity = ins_quantity p,
      oi_price_at_order = ins_price_at_order p, oi_product_name = ins_product_name p,
      oi_image_url = ins_image_url p\<rparr>"

definition insert_order_item ::
  "faults \<Rightarrow> int \<Rightarrow> pending_item \<Rightarrow> world \<Rightarrow> (jstring + unit) \<times> world" where
  "insert_order_item faults oid p =
     attempt faults (insert_call oid p)
       (\<lambda>w. ((), store_write (\<lambda>d. d\<lparr>order_items := order_items d @ [item_row oid p]\<rparr>) w))"

text \<open>\<^verbatim>\<open>connection.commit()\<close>\<close>

definition commit :: "faults \<Rightarrow> world \<Rightarrow> (jstring + unit) \<times> world" where
  "commit faults =
     attempt faults Commit (\<lambda>w. ((), w\<lparr>durable := current w, txn := None\<rparr>))"

text \<open>\<^verbatim>\<open>connection.rollback()\<close>\<close>

definition rollback :: "faults \<Rightarrow> world \<Rightarrow> (jstring + unit) \<times> world" where
  "rollback faults = attempt faults Rollback (\<lambda>w. ((), w\<lparr>txn := None\<rparr>))"

text \<open>\<^verbatim>\<open>connection.release()\<close>: synchronous, not awaited.\<close>

definition release :: "world \<Rightarrow> world" where
  "release w = w\<lparr>trace := trace w @ [Call Release]\<rparr>"

text \<open>\<^verbatim>\<open>res.status(code).json(body)\<close>\<close>

definition respond :: "nat \<Rightarrow> body \<Rightarrow> world \<Rightarrow> world" where
  "respond code b w = w\<lparr>trace := trace w @ [Respond code b]\<rparr>"

subsection \<open>The handler\<close>

text \<open>
  The condition of line 190:
  \<^verbatim>\<open>!item.product_id || !item.quantity || item.quantity <= 0 || !item.name || !item.price_at_order\<close>
\<close>

definition item_invalid :: "item \<Rightarrow> bool" where
  "item_invalid it =
     (falsy_num (product_id it) \<or> falsy_num (quantity it) \<or> le_zero (quantity it) \<or>
      falsy_str (name it) \<or> falsy_num (price_at_order it))"

text \<open>\<^verbatim>\<open>item.image_url || null\<close>\<close>

definition image_or_null :: "string jsfield \<Rightarrow> string option" where
  "image_or_null u = (if falsy_str u then None else Some (str_of u))"

text \<open>The object pushed to \<^verbatim>\<open>orderItemsToInsert\<close> (lines 209-215).\<close>

definition to_insert :: "item \<Rightarrow> rat \<Rightarrow> pending_item" where
  "to_insert it actualProductPrice =
     \<lparr>ins_product_id = to_number (product_id it),
      ins_quantity = to_number (quantity it),
      ins_price_at_order = actualProductPrice,
      ins_product_name = str_of (name it),
      ins_image_url = image_or_null (image_url it)\<rparr>"

text \<open>The messages of the two errors the loop throws (lines 191 and 198).\<close>

definition invalid_item_message :: jstring where
  "invalid_item_message =
     [Chars ''Detail item pesanan tidak valid: product_id, quantity, name, atau price_at_order kurang.'']"

definition not_found_message :: "jsnum \<Rightarrow> jstring" where
  "not_found_message x = [Chars ''Produk dengan ID '', Number x, Chars '' tidak ditemukan.'']"

text \<open>
  The first loop (lines 188-216), with \<^verbatim>\<open>total_price\<close> and \<^verbatim>\<open>orderItemsToInsert\<close> as
  accumulators. \<open>Inl msg\<close> is \<^verbatim>\<open>throw new Error(msg)\<close> or the error of the query. In
  \<^verbatim>\<open>actualProductPrice * item.quantity\<close> the price the store returned is converted to a
  number, the product is rounded, and so is the sum \<^verbatim>\<open>total_price += ...\<close>.
\<close>

fun reconcile ::
  "faults \<Rightarrow> item list \<Rightarrow> jsnum \<Rightarrow> pending_item list \<Rightarrow> world \<Rightarrow>
   (jstring + jsnum \<times> pending_item list) \<times> world" where
  "reconcile faults [] tot acc w = (Inr (tot, acc), w)"
| "reconcile faults (it # its) tot acc w =
     (if item_invalid it then (Inl invalid_item_message, w)
      else case select_price faults (to_number (product_id it)) w of
             (Inl e, w') \<Rightarrow> (Inl e, w')
           | (Inr productRows, w') \<Rightarrow>
               (case productRows of
                  [] \<Rightarrow> (Inl (not_found_message (to_number (product_id it))), w')
                | actualProductPrice # _ \<Rightarrow>
                    reconcile faults its
                      (dadd tot (dmul (to_double actualProductPrice) (to_number (quantity it))))
                      (acc @ [to_insert it actualProductPrice]) w'))"

text \<open>The second loop (lines 228-233).\<close>

fun insert_items :: "faults \<Rightarrow> int \<Rightarrow> pending_item list \<Rightarrow> world \<Rightarrow> (jstring + unit) \<times> world" where
  "insert_items faults oid [] w = (Inr (), w)"
| "insert_items faults oid (p # ps) w =
     (case insert_order_item faults oid p w of
        (Inl e, w') \<Rightarrow> (Inl e, w')
      | (Inr u, w') \<Rightarrow> insert_items faults oid ps w')"

text \<open>
  The \<^verbatim>\<open>try\<close> block after the connection is acquired, up to and including the commit
  (lines 183-235): the generated order id and the total on success.
\<close>

definition transaction ::
  "faults \<Rightarrow> request \<Rightarrow> world \<Rightarrow> (jstring + int \<times> jsnum) \<times> world" where
  "transaction faults req w =
     (case beginTransaction faults w of
        (Inl e, w1) \<Rightarrow> (Inl e, w1)
      | (Inr u, w1) \<Rightarrow>
     (case reconcile faults (arr_of (items req)) (Fin 0) [] w1 of
        (Inl e, w2) \<Rightarrow> (Inl e, w2)
      | (Inr (tot, orderItemsToInsert), w2) \<Rightarrow>
     (case insert_order faults (str_of (customerIdentifier req)) (str_of (customerName req))
             tot ''completed'' w2 of
        (Inl e, w3) \<Rightarrow> (Inl e, w3)
      | (Inr oid, w3) \<Rightarrow>
     (case insert_items faults oid orderItemsToInsert w3 of
        (Inl e, w4) \<Rightarrow> (Inl e, w4)
      | (Inr u, w4) \<Rightarrow>
     (case commit faults w4 of
        (Inl e, w5) \<Rightarrow> (Inl e, w5)
      | (Inr u, w5) \<Rightarrow> (Inr (oid, tot), w5))))))"

text \<open>
  What an execution of the handler leaves: the response sent (if any), the message of
  the error that left the handler uncaught (if any), and the world.
\<close>

record outcome =
  response :: "(nat \<times> body) option"
  uncaught :: "jstring option"
  final :: world

text \<open>\<^verbatim>\<open>`Gagal membuat pesanan: ${error.message}`\<close>\<close>

definition failure_message :: "jstring \<Rightarrow> jstring" where
  "failure_message e = Chars ''Gagal membuat pesanan: '' # e"

text \<open>The three early returns of lines 169-178: the message of the first check that fails.\<close>

definition header_error :: "request \<Rightarrow> jstring option" where
  "header_error req =
     (if falsy_arr (items req) \<or> length (arr_of (items req)) = 0
        then Some [Chars ''Pesanan harus memiliki item.'']
      else if falsy_str (customerIdentifier req) \<or> trim (str_of (customerIdentifier req)) = ''''
        then Some [Chars ''Identitas konsumen (customerIdentifier) wajib diisi.'']
      else if falsy_str (customerName req) \<or> trim (str_of (customerName req)) = ''''
        then Some [Chars ''Nama pembeli (customerName) wajib diisi.'']
      else None)"

text \<open>
  The handler. In the \<^verbatim>\<open>catch\<close> block \<^verbatim>\<open>connection.rollback()\<close> is awaited before the
  response is sent, so an error of the rollback leaves the handler without a response;
  the \<^verbatim>\<open>finally\<close> block releases the connection whenever one was acquired.
\<close>

definition create_order :: "faults \<Rightarrow> request \<Rightarrow> world \<Rightarrow> outcome" where
  "create_order faults req w =
     (case header_error req of
        Some m \<Rightarrow>
          \<lparr>response = Some (400, Message m), uncaught = None,
           final = respond 400 (Message m) w\<rparr>
      | None \<Rightarrow>
          (case getConnection faults w of
             (Inl e, w1) \<Rightarrow>
               \<lparr>response = Some (500, Message (failure_message e)), uncaught = None,
                final = respond 500 (Message (failure_message e)) w1\<rparr>
           | (Inr u, w1) \<Rightarrow>
               (case transaction faults req w1 of
                  (Inr (oid, tot), w2) \<Rightarrow>
                    (let b = Created oid (customerIdentifier req) (customerName req) tot
                               ''completed'' ''Pesanan berhasil dibuat.''
                     in \<lparr>response = Some (201, b), uncaught = None,
                         final = release (respond 201 b w2)\<rparr>)
                | (Inl e, w2) \<Rightarrow>
                    (case rollback faults w2 of
                       (Inl e', w3) \<Rightarrow>
                         \<lparr>response = None, uncaught = Some e', final = release w3\<rparr>
                     | (Inr u, w3) \<Rightarrow>
                         \<lparr>response = Some (500, Message (failure_message e)), uncaught = None,
                          final = release (respond 500 (Message (failure_message e)) w3)\<rparr>))))"

text \<open>The world a request finds: the tables, no transaction open, nothing called yet.\<close>

definition start :: "db \<Rightarrow> int \<Rightarrow> world" where
  "start d n = \<lparr>durable = d, txn = None, next_order_id = n, trace = [], ncalls = 0\<rparr>"

subsection \<open>Vocabulary of the statements\<close>

text \<open>
  The authoritative price of a line item is the price of the product row its \<^verbatim>\<open>product_id\<close>
  names (\<open>known\<close> says that there is such a row). Its contribution to the total is the
  product, in double precision, of that price and its quantity. The order total is what
  adding the contributions to 0 gives, one after the other in the order of the items, each
  sum in double precision.
\<close>

definition known :: "db \<Rightarrow> item \<Rightarrow> bool" where
  "known d it = (find_price d (to_number (product_id it)) \<noteq> None)"

definition authoritative_price :: "db \<Rightarrow> item \<Rightarrow> rat" where
  "authoritative_price d it =
     (case find_price d (to_number (product_id it)) of Some p \<Rightarrow> p | None \<Rightarrow> 0)"

definition contribution :: "db \<Rightarrow> item \<Rightarrow> jsnum" where
  "contribution d it = dmul (to_double (authoritative_price d it)) (to_number (quantity it))"

definition running_total :: "db \<Rightarrow> jsnum \<Rightarrow> item list \<Rightarrow> jsnum" where
  "running_total d tot its = foldl (\<lambda>t it. dadd t (contribution d it)) tot its"

definition order_total :: "db \<Rightarrow> item list \<Rightarrow> jsnum" where
  "order_total d its = running_total d (Fin 0) its"

text \<open>
  The exact sum of price times quantity over the items, and the condition under which the
  order total is that sum: no conversion, no product and no partial sum is rounded.
\<close>

definition exact :: "rat \<Rightarrow> bool" where
  "exact r = (to_double r = Fin r)"

definition exact_total :: "db \<Rightarrow> item list \<Rightarrow> rat" where
  "exact_total d its =
     sum_list (map (\<lambda>it. authoritative_price d it * (case quantity it of Val q \<Rightarrow> q | _ \<Rightarrow> 0)) its)"

fun unrounded :: "db \<Rightarrow> rat \<Rightarrow> item list \<Rightarrow> bool" where
  "unrounded d t [] = True"
| "unrounded d t (it # its) =
     (case quantity it of
        Val q \<Rightarrow>
          exact (authoritative_price d it) \<and> exact q \<and> exact (authoritative_price d it * q) \<and>
          exact (t + authoritative_price d it * q) \<and>
          unrounded d (t + authoritative_price d it * q) its
      | _ \<Rightarrow> False)"

text \<open>
  A sufficient condition: the prices and the quantities are whole numbers from 0 up to, and
  not including, \<open>2 ^ 53\<close>.
\<close>

definition whole :: "rat \<Rightarrow> bool" where
  "whole r = (of_int \<lfloor>r\<rfloor> = r \<and> 0 \<le> r \<and> r < 2 ^ 53)"

definition whole_amounts :: "db \<Rightarrow> item list \<Rightarrow> bool" where
  "whole_amounts d its =
     list_all (\<lambda>it. whole (authoritative_price d it) \<and>
                    (case quantity it of Val q \<Rightarrow> whole q | _ \<Rightarrow> False)) its"

text \<open>The line item as it is queued for insertion once its price has been looked up.\<close>

definition reconciled :: "db \<Rightarrow> item \<Rightarrow> pending_item" where
  "reconciled d it = to_insert it (authoritative_price d it)"

text \<open>The price lookup of a line item, as it is traced.\<close>

definition sel :: "item \<Rightarrow> store_call" where
  "sel it = SelectPrice (to_number (product_id it))"

text \<open>
  The store calls of a run that reaches the commit, in order: the lookups, the insert of
  the order, the inserts of its items, the commit.
\<close>

definition planned_calls :: "db \<Rightarrow> int \<Rightarrow> request \<Rightarrow> store_call list" where
  "planned_calls d oid req =
     BeginTransaction # map sel (arr_of (items req)) @
     [InsertOrder (str_of (customerIdentifier req)) (str_of (customerName req))
        (order_total d (arr_of (items req))) ''completed''] @
     map (\<lambda>it. insert_call oid (reconciled d it)) (arr_of (items req)) @ [Commit]"

text \<open>The order row and the body of the response of a run that commits.\<close>

definition new_order :: "db \<Rightarrow> int \<Rightarrow> request \<Rightarrow> order_row" where
  "new_order d oid req =
     \<lparr>order_id = oid, customer_identifier = str_of (customerIdentifier req),
      customer_name = str_of (customerName req),
      total_price = order_total d (arr_of (items req)), status = ''completed''\<rparr>"

definition created_body :: "db \<Rightarrow> int \<Rightarrow> request \<Rightarrow> body" where
  "created_body d oid req =
     Created oid (customerIdentifier req) (customerName req)
       (order_total d (arr_of (items req))) ''completed'' ''Pesanan berhasil dibuat.''"

text \<open>Several calls recorded at once.\<close>

definition more_calls :: "store_call list \<Rightarrow> world \<Rightarrow> world" where
  "more_calls cs w = w\<lparr>trace := trace w @ map Call cs, ncalls := ncalls w + length cs\<rparr>"

text \<open>
  The first line item that stops the loop when no lookup throws: the number of lookups made
  by then, and the message thrown. It is the first item that fails the check (its own
  lookup is not made) or that passes it and names no product (its lookup is made).
\<close>

fun first_bad :: "db \<Rightarrow> item list \<Rightarrow> (nat \<times> jstring) option" where
  "first_bad d [] = None"
| "first_bad d (it # its) =
     (if item_invalid it then Some (0, invalid_item_message)
      else if \<not> known d it then Some (1, not_found_message (to_number (product_id it)))
      else map_option (\<lambda>(c, e). (Suc c, e)) (first_bad d its))"

text \<open>
  Why a block of code threw the message \<open>e\<close> after making \<open>k\<close> calls, the first of them
  call number \<open>base\<close> of the run, \<open>c\<close> of them lookups: the last of these calls threw a
  store error with that message and none before it threw; or none of them threw and \<open>e\<close>
  is the message of the first line item that stops the loop, after \<open>c\<close> lookups.
\<close>

definition failed_by ::
  "faults \<Rightarrow> nat \<Rightarrow> db \<Rightarrow> item list \<Rightarrow> nat \<Rightarrow> nat \<Rightarrow> jstring \<Rightarrow> bool" where
  "failed_by faults base d its k c e =
     ((0 < k \<and> (\<exists>m. faults (base + k - 1) = Some m \<and> e = [Chars m]) \<and>
       (\<forall>j < k - 1. faults (base + j) = None)) \<or>
      ((\<forall>j < k. faults (base + j) = None) \<and> first_bad d its = Some (c, e)))"

text \<open>
  A customer field is blank when it is absent, \<^verbatim>\<open>null\<close>, empty or white space only; a request
  has no items when \<^verbatim>\<open>items\<close> is absent, \<^verbatim>\<open>null\<close> or the empty array.
\<close>

definition blank :: "string jsfield \<Rightarrow> bool" where
  "blank x = list_all js_space (str_of x)"

definition no_items :: "request \<Rightarrow> bool" where
  "no_items req = (arr_of (items req) = [])"

subsection \<open>Example data\<close>

text \<open>
  A catalogue with product 7 at 10 and product 9 at 5/2, and line items whose
  \<^verbatim>\<open>price_at_order\<close> differs from the catalogue price.
\<close>

definition shop :: db where
  "shop = \<lparr>products = [7 \<mapsto> 10, 9 \<mapsto> 5 / 2], orders = [], order_items = []\<rparr>"

definition widget :: item where
  "widget = \<lparr>product_id = Val 7, quantity = Val 3, name = Val ''Widget'',
              price_at_order = Val 1, image_url = Val ''w.png''\<rparr>"

definition gadget :: item where
  "gadget = \<lparr>product_id = Val 9, quantity = Val 2, name = Val ''Gadget'',
              price_at_order = Val 4, image_url = Val ''''\<rparr>"

definition alice :: "item list \<Rightarrow> request" where
  "alice its = \<lparr>items = Val its, customerIdentifier = Val ''c1'', customerName = Val ''Alice''\<rparr>"

definition no_faults :: faults where
  "no_faults = (\<lambda>k. None)"

definition fault_at :: "nat \<Rightarrow> string \<Rightarrow> faults" where
  "fault_at k msg = (\<lambda>j. if j = k then Some msg else None)"

text \<open>
  A catalogue with prices that are not doubles: product 1 at 1/10 and product 2 at 1/5
  (\<^verbatim>\<open>0.10\<close> and \<^verbatim>\<open>0.20\<close>), and a line item for each.
\<close>

definition kiosk :: db where
  "kiosk = \<lparr>products = [1 \<mapsto> 1 / 10, 2 \<mapsto> 1 / 5], orders = [], order_items = []\<rparr>"

definition candy :: item where
  "candy = \<lparr>product_id = Val 1, quantity = Val 1, name = Val ''Candy'',
             price_at_order = Val (1 / 10), image_url = Null\<rparr>"

definition gum :: item where
  "gum = \<lparr>product_id = Val 2, quantity = Val 1, name = Val ''Gum'',
           price_at_order = Val (1 / 5), image_url = Null\<rparr>"

section \<open>Properties\<close>

subsection \<open>Evaluating numbers\<close>

lemma floor_rat_numeral [simp]:
  "\<lfloor>numeral a / numeral b :: rat\<rfloor> = numeral a div numeral b"
  "\<lfloor>- (numeral a / numeral b) :: rat\<rfloor> = - numeral a div numeral b"
  "\<lfloor>1 / numeral b :: rat\<rfloor> = 1 div numeral b"
  "\<lfloor>- (1 / numeral b) :: rat\<rfloor> = - 1 div numeral b"
  by (metis floor_divide_of_int_eq of_int_numeral of_int_1 of_int_minus minus_divide_left)+

lemma ceiling_rat_numeral [simp]:
  "\<lceil>numeral a / numeral b :: rat\<rceil> = - (- numeral a div numeral b)"
  "\<lceil>- (numeral a / numeral b) :: rat\<rceil> = - (numeral a div numeral b)"
  "\<lceil>1 / numeral b :: rat\<rceil> = - (- 1 div numeral b)"
  by (simp_all only: ceiling_def minus_minus floor_rat_numeral)

lemmas number_defs =
  to_double_def quantum_def floor_log2_def pow2_def round_even_def bits.simps

lemma to_double_0 [simp]: "to_double 0 = Fin 0"
  by (simp add: to_double_def)

subsection \<open>The store calls, one by one\<close>

lemma more_calls_Nil: "more_calls [] w = w"
  by (simp add: more_calls_def)

lemma more_calls_called: "more_calls cs (called c w) = more_calls (c # cs) w"
  by (simp add: more_calls_def called_def)

lemma current_called: "current (called c w) = current w"
  by (simp add: called_def current_def split: option.splits)

lemma select_price_eq:
  "select_price faults x w =
     (case faults (ncalls w) of
        Some m \<Rightarrow> (Inl [Chars m], called (SelectPrice x) w)
      | None \<Rightarrow> (Inr (case find_price (current w) x of None \<Rightarrow> [] | Some p \<Rightarrow> [p]),
                 called (SelectPrice x) w))"
  by (simp add: select_price_def attempt_def current_called split: option.splits)

lemma beginTransaction_eq:
  "beginTransaction faults w =
     (case faults (ncalls w) of
        Some m \<Rightarrow> (Inl [Chars m], called BeginTransaction w)
      | None \<Rightarrow> (Inr (), (called BeginTransaction w)\<lparr>txn := Some (current w)\<rparr>))"
  by (simp add: beginTransaction_def attempt_def current_called split: option.splits)

lemma insert_order_eq:
  "txn w = Some t \<Longrightarrow>
   insert_order faults ci cn tot st w =
     (case faults (ncalls w) of
        Some m \<Rightarrow> (Inl [Chars m], called (InsertOrder ci cn tot st) w)
      | None \<Rightarrow> (Inr (next_order_id w),
                 (called (InsertOrder ci cn tot st) w)
                   \<lparr>txn := Some (t\<lparr>orders := orders t @
                       [\<lparr>order_id = next_order_id w, customer_identifier = ci,
                         customer_name = cn, total_price = tot, status = st\<rparr>]\<rparr>),
                    next_order_id := next_order_id w + 1\<rparr>))"
  by (simp add: insert_order_def attempt_def store_write_def called_def split: option.splits)

lemma insert_order_item_eq:
  "txn w = Some t \<Longrightarrow>
   insert_order_item faults oid p w =
     (case faults (ncalls w) of
        Some m \<Rightarrow> (Inl [Chars m], called (insert_call oid p) w)
      | None \<Rightarrow> (Inr (),
                 (called (insert_call oid p) w)
                   \<lparr>txn := Some (t\<lparr>order_items := order_items t @ [item_row oid p]\<rparr>)\<rparr>))"
  by (simp add: insert_order_item_def attempt_def store_write_def called_def split: option.splits)

lemma commit_eq:
  "commit faults w =
     (case faults (ncalls w) of
        Some m \<Rightarrow> (Inl [Chars m], called Commit w)
      | None \<Rightarrow> (Inr (), (called Commit w)\<lparr>durable := current w, txn := None\<rparr>))"
  by (simp add: commit_def attempt_def current_called split: option.splits)

lemma rollback_eq:
  "rollback faults w =
     (case faults (ncalls w) of
        Some m \<Rightarrow> (Inl [Chars m], called Rollback w)
      | None \<Rightarrow> (Inr (), (called Rollback w)\<lparr>txn := None\<rparr>))"
  by (simp add: rollback_def attempt_def split: option.splits)

lemma getConnection_eq:
  "getConnection faults w =
     (case faults (ncalls w) of
        Some m \<Rightarrow> (Inl [Chars m], called GetConnection w)
      | None \<Rightarrow> (Inr (), called GetConnection w))"
  by (simp add: getConnection_def attempt_def split: option.splits)

subsection \<open>The two loops\<close>

lemma running_total_Nil [simp]: "running_total d tot [] = tot"
  by (simp add: running_total_def)

lemma running_total_Cons [simp]:
  "running_total d tot (it # its) = running_total d (dadd tot (contribution d it)) its"
  by (simp add: running_total_def)

lemma running_total_append:
  "running_total d tot (xs @ ys) = running_total d (running_total d tot xs) ys"
  by (simp add: running_total_def)

lemma nofaults_extend:
  fixes faults :: "nat \<Rightarrow> 'a option"
  assumes "\<forall>j < a. faults (base + j) = None" and "\<forall>j < b. faults (base + a + j) = None"
  shows "\<forall>j < a + b. faults (base + j) = None"
proof (intro allI impI)
  fix j assume j: "j < a + b"
  show "faults (base + j) = None"
  proof (cases "j < a")
    case True
    then show ?thesis using assms(1) by simp
  next
    case False
    then have "j - a < b" "base + a + (j - a) = base + j" using j by simp_all
    then show ?thesis using assms(2) by metis
  qed
qed

lemma first_bad_None_iff:
  "first_bad d its = None \<longleftrightarrow> (\<forall>it \<in> set its. \<not> item_invalid it \<and> known d it)"
  by (induction its) auto

lemma failed_by_shift:
  assumes "faults base = None" and "failed_by faults (Suc base) d its k c e"
  shows "failed_by faults base d its (Suc k) c e"
proof -
  have first: "\<forall>j < 1. faults (base + j) = None" using assms(1) by simp
  have shift: "\<And>n. \<forall>j < n. faults (Suc base + j) = None \<Longrightarrow> \<forall>j < Suc n. faults (base + j) = None"
    using nofaults_extend[OF first] by simp
  from assms(2) consider
    (thrown) "0 < k" "\<exists>m. faults (Suc base + k - 1) = Some m \<and> e = [Chars m]"
      "\<forall>j < k - 1. faults (Suc base + j) = None"
  | (item) "\<forall>j < k. faults (Suc base + j) = None" "first_bad d its = Some (c, e)"
    unfolding failed_by_def by blast
  then show ?thesis
  proof cases
    case thrown
    have "Suc base + k - 1 = base + Suc k - 1" by simp
    with thrown(2) have "\<exists>m. faults (base + Suc k - 1) = Some m \<and> e = [Chars m]" by simp
    moreover have "\<forall>j < Suc k - 1. faults (base + j) = None"
      using shift[OF thrown(3)] thrown(1) by simp
    ultimately show ?thesis unfolding failed_by_def by blast
  next
    case item
    have "\<forall>j < Suc k. faults (base + j) = None" using shift[OF item(1)] .
    with item(2) show ?thesis unfolding failed_by_def by blast
  qed
qed

lemma failed_by_Cons:
  assumes "failed_by faults base d its k c e" and "\<not> item_invalid it" and "known d it"
  shows "failed_by faults base d (it # its) k (Suc c) e"
  using assms unfolding failed_by_def by auto

lemma failed_by_thrown:
  assumes "faults (base + n) = Some m" and "\<forall>j < n. faults (base + j) = None"
  shows "failed_by faults base d its (Suc n) c [Chars m]"
  using assms unfolding failed_by_def by simp

text \<open>
  A run of the first loop makes the lookups of the first \<open>k\<close> items and changes nothing
  else. When it throws, \<open>failed_by\<close> says why. When it returns normally it has looked up
  every item, every item passed the check and named a product, no lookup threw, and the
  accumulators hold the order total and the reconciled items.
\<close>

lemma reconcile_run:
  "reconcile faults its tot acc w = (res, w') \<Longrightarrow>
   \<exists>k \<le> length its.
     w' = more_calls (map sel (take k its)) w \<and>
     (\<forall>e. res = Inl e \<longrightarrow> failed_by faults (ncalls w) (current w) its k k e) \<and>
     (\<forall>t a. res = Inr (t, a) \<longrightarrow>
        k = length its \<and>
        t = running_total (current w) tot its \<and>
        a = acc @ map (reconciled (current w)) its \<and>
        (\<forall>it \<in> set its. \<not> item_invalid it \<and> known (current w) it) \<and>
        (\<forall>j < length its. faults (ncalls w + j) = None))"
proof (induction its arbitrary: tot acc w)
  case Nil
  then show ?case by (auto simp: more_calls_Nil)
next
  case (Cons it its)
  show ?case
  proof (cases "item_invalid it")
    case True
    with Cons.prems have r: "res = Inl invalid_item_message" "w' = w" by auto
    have "failed_by faults (ncalls w) (current w) (it # its) 0 0 invalid_item_message"
      using True unfolding failed_by_def by simp
    with r show ?thesis by (intro exI[of _ 0]) (simp add: more_calls_Nil)
  next
    case valid: False
    let ?x = "to_number (product_id it)"
    let ?w1 = "called (SelectPrice ?x) w"
    show ?thesis
    proof (cases "faults (ncalls w)")
      case (Some m)
      with valid Cons.prems have r: "res = Inl [Chars m]" "w' = ?w1"
        by (auto simp: select_price_eq)
      have "failed_by faults (ncalls w) (current w) (it # its) 1 1 [Chars m]"
        using Some unfolding failed_by_def by simp
      with r show ?thesis
        by (intro exI[of _ 1]) (simp add: more_calls_def called_def sel_def)
    next
      case nofault: None
      show ?thesis
      proof (cases "find_price (current w) ?x")
        case None
        with valid nofault Cons.prems have r: "res = Inl (not_found_message ?x)" "w' = ?w1"
          by (auto simp: select_price_eq)
        have "failed_by faults (ncalls w) (current w) (it # its) 1 1 (not_found_message ?x)"
          using None valid nofault unfolding failed_by_def by (simp add: known_def)
        with r show ?thesis
          by (intro exI[of _ 1]) (simp add: more_calls_def called_def sel_def)
      next
        case (Some p)
        have ap: "authoritative_price (current w) it = p"
          using Some by (simp add: authoritative_price_def)
        with valid nofault Cons.prems Some
        have rec: "reconcile faults its (dadd tot (dmul (to_double p) (to_number (quantity it))))
                     (acc @ [to_insert it p]) ?w1 = (res, w')"
          by (auto simp: select_price_eq)
        have nc: "ncalls ?w1 = Suc (ncalls w)" by (simp add: called_def)
        from Cons.IH[OF rec] obtain k where k: "k \<le> length its"
          "w' = more_calls (map sel (take k its)) ?w1"
          "\<forall>e. res = Inl e \<longrightarrow> failed_by faults (ncalls ?w1) (current ?w1) its k k e"
          "\<forall>t a. res = Inr (t, a) \<longrightarrow>
             k = length its \<and>
             t = running_total (current ?w1)
                   (dadd tot (dmul (to_double p) (to_number (quantity it)))) its \<and>
             a = (acc @ [to_insert it p]) @ map (reconciled (current ?w1)) its \<and>
             (\<forall>it \<in> set its. \<not> item_invalid it \<and> known (current ?w1) it) \<and>
             (\<forall>j < length its. faults (ncalls ?w1 + j) = None)"
          by blast
        have faults_shift: "(\<forall>j < length its. faults (ncalls ?w1 + j) = None) \<Longrightarrow>
              (\<forall>j < length (it # its). faults (ncalls w + j) = None)"
          using nofault nc by (auto simp: less_Suc_eq_0_disj)
        show ?thesis
        proof (intro exI[of _ "Suc k"] conjI)
          show "Suc k \<le> length (it # its)" using k(1) by simp
          show "w' = more_calls (map sel (take (Suc k) (it # its))) w"
            using k(2) by (simp add: more_calls_called sel_def)
          show "\<forall>e. res = Inl e \<longrightarrow>
                  failed_by faults (ncalls w) (current w) (it # its) (Suc k) (Suc k) e"
          proof (intro allI impI)
            fix e assume "res = Inl e"
            with k(3) have "failed_by faults (Suc (ncalls w)) (current w) its k k e"
              by (simp add: nc current_called)
            with nofault have "failed_by faults (ncalls w) (current w) its (Suc k) k e"
              by (rule failed_by_shift)
            then show "failed_by faults (ncalls w) (current w) (it # its) (Suc k) (Suc k) e"
              using valid Some by (intro failed_by_Cons) (simp_all add: known_def)
          qed
          show "\<forall>t a. res = Inr (t, a) \<longrightarrow>
                  Suc k = length (it # its) \<and>
                  t = running_total (current w) tot (it # its) \<and>
                  a = acc @ map (reconciled (current w)) (it # its) \<and>
                  (\<forall>it \<in> set (it # its). \<not> item_invalid it \<and> known (current w) it) \<and>
                  (\<forall>j < length (it # its). faults (ncalls w + j) = None)"
          proof (intro allI impI)
            fix t a assume r: "res = Inr (t, a)"
            with k(4) have h: "k = length its"
              "t = running_total (current ?w1)
                     (dadd tot (dmul (to_double p) (to_number (quantity it)))) its"
              "a = (acc @ [to_insert it p]) @ map (reconciled (current ?w1)) its"
              "\<forall>it \<in> set its. \<not> item_invalid it \<and> known (current ?w1) it"
              "\<forall>j < length its. faults (ncalls ?w1 + j) = None"
              by blast+
            have "Suc k = length (it # its)" using h(1) by simp
            moreover have "t = running_total (current w) tot (it # its)"
              using h(2) ap by (simp add: current_called contribution_def)
            moreover have "a = acc @ map (reconciled (current w)) (it # its)"
              using h(3) ap by (simp add: current_called reconciled_def)
            moreover have "\<forall>it \<in> set (it # its). \<not> item_invalid it \<and> known (current w) it"
              using h(4) valid Some by (simp add: current_called known_def)
            moreover have "\<forall>j < length (it # its). faults (ncalls w + j) = None"
              using faults_shift[OF h(5)] .
            ultimately show
              "Suc k = length (it # its) \<and>
               t = running_total (current w) tot (it # its) \<and>
               a = acc @ map (reconciled (current w)) (it # its) \<and>
               (\<forall>it \<in> set (it # its). \<not> item_invalid it \<and> known (current w) it) \<and>
               (\<forall>j < length (it # its). faults (ncalls w + j) = None)"
              by blast
          qed
        qed
      qed
    qed
  qed
qed

text \<open>
  A run of the second loop inside a transaction makes the inserts of the first \<open>k\<close>
  queued items and leaves the durable tables alone. When it throws, the last insert threw
  and none before it. When it returns normally the working copy holds a row for every
  queued item, in order.
\<close>

lemma insert_items_run:
  "insert_items faults oid ps w = (res, w') \<Longrightarrow> txn w = Some t \<Longrightarrow>
   \<exists>k \<le> length ps.
     trace w' = trace w @ map Call (map (insert_call oid) (take k ps)) \<and>
     ncalls w' = ncalls w + k \<and> durable w' = durable w \<and>
     next_order_id w' = next_order_id w \<and>
     (\<forall>e. res = Inl e \<longrightarrow>
        0 < k \<and> (\<exists>m. faults (ncalls w + k - 1) = Some m \<and> e = [Chars m]) \<and>
        (\<forall>j < k - 1. faults (ncalls w + j) = None)) \<and>
     (res = Inr () \<longrightarrow>
        k = length ps \<and>
        txn w' = Some (t\<lparr>order_items := order_items t @ map (item_row oid) ps\<rparr>) \<and>
        (\<forall>j < length ps. faults (ncalls w + j) = None))"
proof (induction ps arbitrary: w t)
  case Nil
  then show ?case by auto
next
  case (Cons p ps)
  show ?case
  proof (cases "faults (ncalls w)")
    case (Some m)
    with Cons.prems have "res = Inl [Chars m]" "w' = called (insert_call oid p) w"
      by (auto simp: insert_order_item_eq)
    then show ?thesis using Some
      by (intro exI[of _ 1]) (simp add: called_def)
  next
    case None
    let ?t1 = "t\<lparr>order_items := order_items t @ [item_row oid p]\<rparr>"
    let ?w1 = "(called (insert_call oid p) w)\<lparr>txn := Some ?t1\<rparr>"
    from None Cons.prems have rec: "insert_items faults oid ps ?w1 = (res, w')"
      by (auto simp: insert_order_item_eq)
    have t1: "txn ?w1 = Some ?t1" by simp
    from Cons.IH[OF rec t1] obtain k where k: "k \<le> length ps"
      "trace w' = trace ?w1 @ map Call (map (insert_call oid) (take k ps))"
      "ncalls w' = ncalls ?w1 + k" "durable w' = durable ?w1"
      "next_order_id w' = next_order_id ?w1"
      "\<forall>e. res = Inl e \<longrightarrow>
        0 < k \<and> (\<exists>m. faults (ncalls ?w1 + k - 1) = Some m \<and> e = [Chars m]) \<and>
        (\<forall>j < k - 1. faults (ncalls ?w1 + j) = None)"
      "res = Inr () \<longrightarrow>
        k = length ps \<and>
        txn w' = Some (?t1\<lparr>order_items := order_items ?t1 @ map (item_row oid) ps\<rparr>) \<and>
        (\<forall>j < length ps. faults (ncalls ?w1 + j) = None)"
      by blast
    have nc: "ncalls ?w1 = Suc (ncalls w)" by (simp add: called_def)
    have shift: "\<And>n. \<forall>j < n. faults (ncalls ?w1 + j) = None \<Longrightarrow>
        \<forall>j < Suc n. faults (ncalls w + j) = None"
      using None nc by (auto simp: less_Suc_eq_0_disj)
    show ?thesis
    proof (intro exI[of _ "Suc k"] conjI)
      show "Suc k \<le> length (p # ps)" using k(1) by simp
      show "trace w' = trace w @ map Call (map (insert_call oid) (take (Suc k) (p # ps)))"
        using k(2) by (simp add: called_def)
      show "ncalls w' = ncalls w + Suc k" using k(3) nc by simp
      show "durable w' = durable w" using k(4) by (simp add: called_def)
      show "next_order_id w' = next_order_id w" using k(5) by (simp add: called_def)
      show "\<forall>e. res = Inl e \<longrightarrow>
              0 < Suc k \<and> (\<exists>m. faults (ncalls w + Suc k - 1) = Some m \<and> e = [Chars m]) \<and>
              (\<forall>j < Suc k - 1. faults (ncalls w + j) = None)"
      proof (intro allI impI)
        fix e assume "res = Inl e"
        with k(6) have h: "0 < k" "\<exists>m. faults (ncalls ?w1 + k - 1) = Some m \<and> e = [Chars m]"
          "\<forall>j < k - 1. faults (ncalls ?w1 + j) = None"
          by blast+
        have "ncalls ?w1 + k - 1 = ncalls w + Suc k - 1" using nc by simp
        with h(2) have "\<exists>m. faults (ncalls w + Suc k - 1) = Some m \<and> e = [Chars m]" by simp
        moreover have "\<forall>j < Suc (k - 1). faults (ncalls w + j) = None" using shift[OF h(3)] .
        then have "\<forall>j < Suc k - 1. faults (ncalls w + j) = None" using h(1) by simp
        ultimately show "0 < Suc k \<and>
            (\<exists>m. faults (ncalls w + Suc k - 1) = Some m \<and> e = [Chars m]) \<and>
            (\<forall>j < Suc k - 1. faults (ncalls w + j) = None)"
          by blast
      qed
      show "res = Inr () \<longrightarrow>
              Suc k = length (p # ps) \<and>
              txn w' = Some (t\<lparr>order_items := order_items t @ map (item_row oid) (p # ps)\<rparr>) \<and>
              (\<forall>j < length (p # ps). faults (ncalls w + j) = None)"
      proof
        assume r: "res = Inr ()"
        with k(7) have h: "k = length ps"
          "txn w' = Some (?t1\<lparr>order_items := order_items ?t1 @ map (item_row oid) ps\<rparr>)"
          "\<forall>j < length ps. faults (ncalls ?w1 + j) = None"
          by blast+
        have "Suc k = length (p # ps)" using h(1) by simp
        moreover have
          "txn w' = Some (t\<lparr>order_items := order_items t @ map (item_row oid) (p # ps)\<rparr>)"
          using h(2) by simp
        moreover have "\<forall>j < length (p # ps). faults (ncalls w + j) = None"
          using shift[OF h(3)] by simp
        ultimately show "Suc k = length (p # ps) \<and>
            txn w' = Some (t\<lparr>order_items := order_items t @ map (item_row oid) (p # ps)\<rparr>) \<and>
            (\<forall>j < length (p # ps). faults (ncalls w + j) = None)"
          by blast
      qed
    qed
  qed
qed

subsection \<open>The transaction\<close>

text \<open>
  A run of the \<^verbatim>\<open>try\<close> block on a connection with no transaction open makes the first \<open>k\<close>
  of the planned calls, at least the \<^verbatim>\<open>beginTransaction\<close>. When it throws, the durable
  tables are as before, and \<open>failed_by\<close> says why it threw. When it returns, every planned
  call was made and none threw, every item passed the check and named a product, and the
  durable tables have gained the order row and one row per item.
\<close>

lemma length_planned_calls:
  "length (planned_calls d n req) = 2 * length (arr_of (items req)) + 3"
  by (simp add: planned_calls_def)

lemma transaction_run:
  assumes run: "transaction faults req w = (res, w')" and idle: "txn w = None"
  shows "\<exists>k \<le> length (planned_calls (durable w) (next_order_id w) req).
           0 < k \<and>
           trace w' = trace w @ map Call (take k (planned_calls (durable w) (next_order_id w) req)) \<and>
           ncalls w' = ncalls w + k \<and>
           (\<forall>e. res = Inl e \<longrightarrow>
              durable w' = durable w \<and>
              failed_by faults (ncalls w) (durable w) (arr_of (items req)) k (k - 1) e) \<and>
           (\<forall>oid t. res = Inr (oid, t) \<longrightarrow>
              k = length (planned_calls (durable w) (next_order_id w) req) \<and>
              oid = next_order_id w \<and>
              t = order_total (durable w) (arr_of (items req)) \<and>
              txn w' = None \<and>
              durable w' = (durable w)
                \<lparr>orders := orders (durable w) @ [new_order (durable w) (next_order_id w) req],
                 order_items := order_items (durable w) @
                   map (\<lambda>it. item_row (next_order_id w) (reconciled (durable w) it))
                     (arr_of (items req))\<rparr> \<and>
              (\<forall>it \<in> set (arr_of (items req)). \<not> item_invalid it \<and> known (durable w) it) \<and>
              (\<forall>j < k. faults (ncalls w + j) = None))"
    (is "\<exists>k \<le> length ?plan. ?P k")
proof -
  let ?d = "durable w" and ?n = "next_order_id w" and ?its = "arr_of (items req)"
  let ?N = "length ?its"
  have cur: "current w = ?d" using idle by (simp add: current_def)
  show ?thesis
  proof (cases "faults (ncalls w)")
    case (Some m)
    with run have "res = Inl [Chars m]" "w' = called BeginTransaction w"
      by (auto simp: transaction_def beginTransaction_eq)
    moreover have "failed_by faults (ncalls w) ?d ?its (Suc 0) 0 [Chars m]"
      using Some by (intro failed_by_thrown) simp_all
    ultimately have "?P 1" by (simp add: called_def planned_calls_def)
    then show ?thesis by (intro exI[of _ 1]) (simp add: length_planned_calls)
  next
    case f0: None
    have nf1: "\<forall>j < 1. faults (ncalls w + j) = None" using f0 by simp
    define w1 where "w1 = (called BeginTransaction w)\<lparr>txn := Some ?d\<rparr>"
    have bt: "beginTransaction faults w = (Inr (), w1)"
      using f0 cur by (simp add: beginTransaction_eq w1_def)
    have w1: "trace w1 = trace w @ [Call BeginTransaction]" "ncalls w1 = Suc (ncalls w)"
      "durable w1 = ?d" "txn w1 = Some ?d" "next_order_id w1 = ?n" "current w1 = ?d"
      by (simp_all add: w1_def called_def current_def)
    obtain r2 w2 where rec: "reconcile faults ?its (Fin 0) [] w1 = (r2, w2)"
      by (cases "reconcile faults ?its (Fin 0) [] w1") blast
    from reconcile_run[OF rec] obtain k1 where k1: "k1 \<le> ?N"
      "w2 = more_calls (map sel (take k1 ?its)) w1"
      "\<forall>e. r2 = Inl e \<longrightarrow> failed_by faults (ncalls w1) (current w1) ?its k1 k1 e"
      "\<forall>t a. r2 = Inr (t, a) \<longrightarrow>
        k1 = ?N \<and> t = running_total (current w1) (Fin 0) ?its \<and>
        a = [] @ map (reconciled (current w1)) ?its \<and>
        (\<forall>it \<in> set ?its. \<not> item_invalid it \<and> known (current w1) it) \<and>
        (\<forall>j < ?N. faults (ncalls w1 + j) = None)"
      by blast
    have w2: "trace w2 = trace w @ Call BeginTransaction # map Call (map sel (take k1 ?its))"
      "ncalls w2 = ncalls w + Suc k1" "durable w2 = ?d" "txn w2 = Some ?d"
      "next_order_id w2 = ?n"
      using k1(1,2) w1 by (simp_all add: more_calls_def)
    show ?thesis
    proof (cases r2)
      case (Inl e)
      with run bt rec have "res = Inl e" "w' = w2"
        by (auto simp: transaction_def)
      moreover have "failed_by faults (ncalls w) ?d ?its (Suc k1) k1 e"
        using k1(3) Inl w1 f0 by (intro failed_by_shift) simp_all
      ultimately have "?P (Suc k1)" using w2 k1(1) by (simp add: planned_calls_def take_map)
      then show ?thesis using k1(1) by (intro exI[of _ "Suc k1"]) (simp add: length_planned_calls)
    next
      case (Inr ta)
      obtain t a where ta: "ta = (t, a)" by (cases ta)
      from k1(4) Inr ta w1 have r2: "k1 = ?N" "t = order_total ?d ?its"
        "a = map (reconciled ?d) ?its"
        "\<forall>it \<in> set ?its. \<not> item_invalid it \<and> known ?d it"
        "\<forall>j < ?N. faults (ncalls w + 1 + j) = None"
        by (auto simp: order_total_def)
      have nf2: "\<forall>j < ?N + 1. faults (ncalls w + j) = None"
        using nofaults_extend[OF nf1 r2(5)] by (simp add: add.commute)
      have la: "length a = ?N" using r2(3) by simp
      let ?ins = "InsertOrder (str_of (customerIdentifier req)) (str_of (customerName req))
                    t ''completed''"
      show ?thesis
      proof (cases "faults (ncalls w2)")
        case (Some m)
        with run bt rec Inr ta w2(4) have "res = Inl [Chars m]" "w' = called ?ins w2"
          by (auto simp: transaction_def insert_order_eq)
        moreover have "failed_by faults (ncalls w) ?d ?its (Suc (?N + 1)) (?N + 1) [Chars m]"
          using Some w2(2) r2(1) nf2 by (intro failed_by_thrown) simp_all
        ultimately have "?P (?N + 2)" using w2 r2(1,2)
          by (simp add: planned_calls_def called_def)
        then show ?thesis by (intro exI[of _ "?N + 2"]) (simp add: length_planned_calls)
      next
        case f2: None
        have "\<forall>j < 1. faults (ncalls w + (?N + 1) + j) = None" using f2 w2(2) r2(1) by simp
        from nofaults_extend[OF nf2 this]
        have nf3: "\<forall>j < ?N + 2. faults (ncalls w + j) = None" by simp
        define t3 where "t3 = ?d\<lparr>orders := orders ?d @ [new_order ?d ?n req]\<rparr>"
        define w3 where "w3 = (called ?ins w2)\<lparr>txn := Some t3, next_order_id := ?n + 1\<rparr>"
        have ins: "insert_order faults (str_of (customerIdentifier req))
                     (str_of (customerName req)) t ''completed'' w2 = (Inr ?n, w3)"
          using f2 w2 r2(2) by (simp add: insert_order_eq w3_def t3_def new_order_def)
        have w3: "trace w3 = trace w2 @ [Call ?ins]" "ncalls w3 = ncalls w + (?N + 2)"
          "durable w3 = ?d" "txn w3 = Some t3"
          using w2 r2(1) by (simp_all add: w3_def called_def)
        obtain r4 w4 where items: "insert_items faults ?n a w3 = (r4, w4)"
          by (cases "insert_items faults ?n a w3") blast
        from insert_items_run[OF items w3(4)] obtain k2 where k2: "k2 \<le> length a"
          "trace w4 = trace w3 @ map Call (map (insert_call ?n) (take k2 a))"
          "ncalls w4 = ncalls w3 + k2" "durable w4 = durable w3"
          "\<forall>e. r4 = Inl e \<longrightarrow>
             0 < k2 \<and> (\<exists>m. faults (ncalls w3 + k2 - 1) = Some m \<and> e = [Chars m]) \<and>
             (\<forall>j < k2 - 1. faults (ncalls w3 + j) = None)"
          "r4 = Inr () \<longrightarrow> k2 = length a \<and>
             txn w4 = Some (t3\<lparr>order_items := order_items t3 @ map (item_row ?n) a\<rparr>) \<and>
             (\<forall>j < length a. faults (ncalls w3 + j) = None)"
          by blast
        have tr4: "trace w4 = trace w @ map Call (take (?N + 2 + k2) ?plan)"
          using k2(1,2) w3(1) w2(1) r2(1,2,3) la
          by (simp add: planned_calls_def take_map o_def)
        have nc4: "ncalls w4 = ncalls w + (?N + 2 + k2)"
          using k2(3) w3(2) by simp
        show ?thesis
        proof (cases r4)
          case (Inl e)
          with run bt rec Inr ta ins items have fin: "res = Inl e" "w' = w4"
            by (auto simp: transaction_def)
          from k2(5) Inl obtain m where h: "0 < k2" "faults (ncalls w3 + k2 - 1) = Some m"
            "e = [Chars m]" "\<forall>j < k2 - 1. faults (ncalls w3 + j) = None"
            by blast
          have "\<forall>j < k2 - 1. faults (ncalls w + (?N + 2) + j) = None" using h(4) w3(2) by simp
          from nofaults_extend[OF nf3 this]
          have "\<forall>j < ?N + 2 + k2 - 1. faults (ncalls w + j) = None" using h(1) by simp
          moreover have "faults (ncalls w + (?N + 2 + k2 - 1)) = Some m"
            using h(1,2) w3(2) by (simp add: add.assoc)
          ultimately have "failed_by faults (ncalls w) ?d ?its (Suc (?N + 2 + k2 - 1))
              (?N + 2 + k2 - 1) e"
            unfolding h(3) by (intro failed_by_thrown) simp_all
          then have "failed_by faults (ncalls w) ?d ?its (?N + 2 + k2) (?N + 2 + k2 - 1) e"
            using h(1) by simp
          then have "?P (?N + 2 + k2)" using fin tr4 nc4 k2(4) w3(3) by simp
          then show ?thesis using k2(1) la
            by (intro exI[of _ "?N + 2 + k2"]) (simp add: length_planned_calls)
        next
          case r4: (Inr u)
          with k2(6) have all_in: "k2 = length a"
            "txn w4 = Some (t3\<lparr>order_items := order_items t3 @ map (item_row ?n) a\<rparr>)"
            "\<forall>j < length a. faults (ncalls w3 + j) = None"
            by auto
          have "\<forall>j < ?N. faults (ncalls w + (?N + 2) + j) = None"
            using all_in(3) la w3(2) by simp
          from nofaults_extend[OF nf3 this]
          have nf4: "\<forall>j < 2 * ?N + 2. faults (ncalls w + j) = None"
            by (simp add: mult_2 add.assoc add.commute)
          have nc4': "ncalls w4 = ncalls w + (2 * ?N + 2)" using nc4 all_in(1) la by simp
          have cur4: "current w4 = t3\<lparr>order_items := order_items t3 @ map (item_row ?n) a\<rparr>"
            using all_in(2) by (simp add: current_def)
          show ?thesis
          proof (cases "faults (ncalls w4)")
            case (Some m)
            with run bt rec Inr ta ins items r4 have fin: "res = Inl [Chars m]"
              "w' = called Commit w4"
              by (auto simp: transaction_def commit_eq)
            have "failed_by faults (ncalls w) ?d ?its (Suc (2 * ?N + 2)) (2 * ?N + 2) [Chars m]"
              using Some nc4' nf4 by (intro failed_by_thrown) simp_all
            moreover have "Suc (2 * ?N + 2) = 2 * ?N + 3" "2 * ?N + 2 = 2 * ?N + 3 - 1"
              by simp_all
            ultimately have
              "failed_by faults (ncalls w) ?d ?its (2 * ?N + 3) (2 * ?N + 3 - 1) [Chars m]"
              by (simp only:)
            then have "?P (2 * ?N + 3)"
              using fin tr4 nc4 k2(4) w3(3) all_in(1) la
              by (simp add: called_def planned_calls_def)
            then show ?thesis
              by (intro exI[of _ "2 * ?N + 3"]) (simp add: length_planned_calls)
          next
            case f4: None
            with run bt rec Inr ta ins items r4
            have fin: "res = Inr (?n, t)"
              "w' = (called Commit w4)\<lparr>durable := current w4, txn := None\<rparr>"
              by (auto simp: transaction_def commit_eq)
            have "\<forall>j < 1. faults (ncalls w + (2 * ?N + 2) + j) = None" using f4 nc4' by simp
            from nofaults_extend[OF nf4 this]
            have nofaults: "\<forall>j < 2 * ?N + 3. faults (ncalls w + j) = None" by simp
            have "?P (2 * ?N + 3)"
              using fin tr4 nc4 all_in(1) la cur4 r2(2,3,4) nofaults
              by (simp add: called_def planned_calls_def t3_def o_def)
            then show ?thesis
              by (intro exI[of _ "2 * ?N + 3"]) (simp add: length_planned_calls)
          qed
        qed
      qed
    qed
  qed
qed

subsection \<open>The handler\<close>

lemma create_order_header:
  "header_error req = Some m \<Longrightarrow>
   create_order faults req w =
     \<lparr>response = Some (400, Message m), uncaught = None, final = respond 400 (Message m) w\<rparr>"
  by (simp add: create_order_def)

text \<open>
  Every run that passes the three early checks is of one of four kinds: no connection
  was obtained; the order was created; the \<^verbatim>\<open>try\<close> block threw after \<open>k\<close> of the planned
  calls and the rollback returned; or it threw and the rollback threw as well. In the last
  two kinds \<open>failed_by\<close> names what was thrown.
\<close>

lemma create_order_cases [consumes 1, case_names no_connection created rolled_back rollback_failed]:
  assumes hdr: "header_error req = None"
  obtains
    (no_connection) m where
      "faults 0 = Some m"
      "response (create_order faults req (start d n)) =
         Some (500, Message (failure_message [Chars m]))"
      "uncaught (create_order faults req (start d n)) = None"
      "trace (final (create_order faults req (start d n))) =
         [Call GetConnection, Respond 500 (Message (failure_message [Chars m]))]"
      "durable (final (create_order faults req (start d n))) = d"
      "txn (final (create_order faults req (start d n))) = None"
  | (created)
      "\<forall>j < length (planned_calls d n req) + 1. faults j = None"
      "\<forall>it \<in> set (arr_of (items req)). \<not> item_invalid it \<and> known d it"
      "response (create_order faults req (start d n)) = Some (201, created_body d n req)"
      "uncaught (create_order faults req (start d n)) = None"
      "trace (final (create_order faults req (start d n))) =
         Call GetConnection # map Call (planned_calls d n req) @
         [Respond 201 (created_body d n req), Call Release]"
      "durable (final (create_order faults req (start d n))) =
         d\<lparr>orders := orders d @ [new_order d n req],
           order_items := order_items d @
             map (\<lambda>it. item_row n (reconciled d it)) (arr_of (items req))\<rparr>"
      "txn (final (create_order faults req (start d n))) = None"
  | (rolled_back) k e where
      "faults 0 = None" "0 < k" "k \<le> length (planned_calls d n req)" "faults (Suc k) = None"
      "failed_by faults 1 d (arr_of (items req)) k (k - 1) e"
      "response (create_order faults req (start d n)) = Some (500, Message (failure_message e))"
      "uncaught (create_order faults req (start d n)) = None"
      "trace (final (create_order faults req (start d n))) =
         Call GetConnection # map Call (take k (planned_calls d n req)) @
         [Call Rollback, Respond 500 (Message (failure_message e)), Call Release]"
      "durable (final (create_order faults req (start d n))) = d"
      "txn (final (create_order faults req (start d n))) = None"
  | (rollback_failed) k e m where
      "faults 0 = None" "0 < k" "k \<le> length (planned_calls d n req)" "faults (Suc k) = Some m"
      "failed_by faults 1 d (arr_of (items req)) k (k - 1) e"
      "response (create_order faults req (start d n)) = None"
      "uncaught (create_order faults req (start d n)) = Some [Chars m]"
      "trace (final (create_order faults req (start d n))) =
         Call GetConnection # map Call (take k (planned_calls d n req)) @
         [Call Rollback, Call Release]"
      "durable (final (create_order faults req (start d n))) = d"
proof (cases "faults 0")
  case (Some m)
  then have "create_order faults req (start d n) =
      \<lparr>response = Some (500, Message (failure_message [Chars m])), uncaught = None,
       final = respond 500 (Message (failure_message [Chars m]))
                 (called GetConnection (start d n))\<rparr>"
    using hdr by (simp add: create_order_def getConnection_eq start_def)
  then show ?thesis using Some
    by (intro no_connection[of m]) (simp_all add: respond_def called_def start_def)
next
  case f0: None
  define w1 where "w1 = called GetConnection (start d n)"
  have w1: "trace w1 = [Call GetConnection]" "ncalls w1 = 1" "durable w1 = d" "txn w1 = None"
    "next_order_id w1 = n"
    by (simp_all add: w1_def called_def start_def)
  have gc: "getConnection faults (start d n) = (Inr (), w1)"
    using f0 by (simp add: getConnection_eq w1_def start_def)
  obtain res w2 where tr: "transaction faults req w1 = (res, w2)"
    by (cases "transaction faults req w1") blast
  from transaction_run[OF tr w1(4)] w1 obtain k where k:
    "k \<le> length (planned_calls d n req)" "0 < k"
    "trace w2 = Call GetConnection # map Call (take k (planned_calls d n req))"
    "ncalls w2 = Suc k"
    "\<forall>e. res = Inl e \<longrightarrow> durable w2 = d \<and> failed_by faults 1 d (arr_of (items req)) k (k - 1) e"
    "\<forall>oid t. res = Inr (oid, t) \<longrightarrow>
       k = length (planned_calls d n req) \<and> oid = n \<and>
       t = order_total d (arr_of (items req)) \<and> txn w2 = None \<and>
       durable w2 = d\<lparr>orders := orders d @ [new_order d n req],
                      order_items := order_items d @
                        map (\<lambda>it. item_row n (reconciled d it)) (arr_of (items req))\<rparr> \<and>
       (\<forall>it \<in> set (arr_of (items req)). \<not> item_invalid it \<and> known d it) \<and>
       (\<forall>j < k. faults (1 + j) = None)"
    by auto
  show ?thesis
  proof (cases res)
    case (Inr ot)
    obtain oid t where ot: "ot = (oid, t)" by (cases ot)
    from k(6) Inr ot have ok: "k = length (planned_calls d n req)" "oid = n"
      "t = order_total d (arr_of (items req))" "txn w2 = None"
      "durable w2 = d\<lparr>orders := orders d @ [new_order d n req],
                      order_items := order_items d @
                        map (\<lambda>it. item_row n (reconciled d it)) (arr_of (items req))\<rparr>"
      "\<forall>it \<in> set (arr_of (items req)). \<not> item_invalid it \<and> known d it"
      "\<forall>j < k. faults (1 + j) = None"
      by blast+
    have co: "create_order faults req (start d n) =
        \<lparr>response = Some (201, created_body d n req), uncaught = None,
         final = release (respond 201 (created_body d n req) w2)\<rparr>"
      using hdr gc tr Inr ot ok(2,3) by (simp add: create_order_def created_body_def Let_def)
    have nf: "\<forall>j < length (planned_calls d n req) + 1. faults j = None"
    proof (intro allI impI)
      fix j assume "j < length (planned_calls d n req) + 1"
      then consider "j = 0" | "j - 1 < k \<and> j = 1 + (j - 1)" using ok(1) by linarith
      then show "faults j = None"
      proof cases
        case 1 then show ?thesis using f0 by simp
      next
        case 2
        then have "faults (1 + (j - 1)) = None" using ok(7) by blast
        then show ?thesis using 2 by simp
      qed
    qed
    show ?thesis
      using co nf ok k(3)
      by (intro created) (simp_all add: release_def respond_def)
  next
    case (Inl e)
    with k(5) have dur: "durable w2 = d" and why: "failed_by faults 1 d (arr_of (items req)) k (k - 1) e"
      by blast+
    show ?thesis
    proof (cases "faults (Suc k)")
      case None
      then have "create_order faults req (start d n) =
          \<lparr>response = Some (500, Message (failure_message e)), uncaught = None,
           final = release (respond 500 (Message (failure_message e))
                     ((called Rollback w2)\<lparr>txn := None\<rparr>))\<rparr>"
        using hdr gc tr Inl k(4) by (simp add: create_order_def rollback_eq)
      then show ?thesis using f0 None k(1-4) dur why
        by (intro rolled_back[of k e]) (simp_all add: release_def respond_def called_def)
    next
      case (Some m)
      then have "create_order faults req (start d n) =
          \<lparr>response = None, uncaught = Some [Chars m], final = release (called Rollback w2)\<rparr>"
        using hdr gc tr Inl k(4) by (simp add: create_order_def rollback_eq)
      then show ?thesis using f0 Some k(1-4) dur why
        by (intro rollback_failed[of k m e]) (simp_all add: release_def called_def)
    qed
  qed
qed

subsection \<open>Runs that reach a given step\<close>

lemma current_more_calls: "current (more_calls cs w) = current w"
  by (simp add: more_calls_def current_def split: option.splits)

text \<open>
  While the items pass the check and name a product and no lookup throws, the first loop
  goes on to the next item.
\<close>

lemma reconcile_prefix:
  "\<forall>x \<in> set pre. \<not> item_invalid x \<and> known (current w) x \<Longrightarrow>
   \<forall>j < length pre. faults (ncalls w + j) = None \<Longrightarrow>
   reconcile faults (pre @ rest) tot acc w =
     reconcile faults rest (running_total (current w) tot pre)
       (acc @ map (reconciled (current w)) pre) (more_calls (map sel pre) w)"
proof (induction pre arbitrary: tot acc w)
  case Nil
  then show ?case by (simp add: more_calls_Nil)
next
  case (Cons x pre)
  let ?w1 = "called (sel x) w"
  from Cons.prems(1) obtain p where
    p: "find_price (current w) (to_number (product_id x)) = Some p"
    and valid: "\<not> item_invalid x"
    by (auto simp: known_def)
  have f: "faults (ncalls w) = None" using Cons.prems(2) by fastforce
  have step: "reconcile faults ((x # pre) @ rest) tot acc w =
      reconcile faults (pre @ rest) (dadd tot (dmul (to_double p) (to_number (quantity x))))
        (acc @ [to_insert x p]) ?w1"
    using p valid f by (simp add: select_price_eq sel_def)
  have pre1: "\<forall>y \<in> set pre. \<not> item_invalid y \<and> known (current ?w1) y"
    using Cons.prems(1) by (simp add: current_called)
  have nf1: "\<forall>j < length pre. faults (ncalls ?w1 + j) = None"
  proof (intro allI impI)
    fix j assume "j < length pre"
    then have "faults (ncalls w + Suc j) = None" using Cons.prems(2) by fastforce
    then show "faults (ncalls ?w1 + j) = None" by (simp add: called_def)
  qed
  have lt: "contribution (current w) x = dmul (to_double p) (to_number (quantity x))"
    using p by (simp add: contribution_def authoritative_price_def)
  have rc: "reconciled (current w) x = to_insert x p"
    using p by (simp add: reconciled_def authoritative_price_def)
  show ?case
    unfolding step Cons.IH[OF pre1 nf1]
    by (simp add: current_called lt rc more_calls_called)
qed

text \<open>The second loop returns when no insert throws.\<close>

lemma insert_items_ok:
  "txn w = Some t \<Longrightarrow> \<forall>j < length ps. faults (ncalls w + j) = None \<Longrightarrow>
   \<exists>w'. insert_items faults oid ps w = (Inr (), w')"
proof (induction ps arbitrary: w t)
  case Nil
  then show ?case by simp
next
  case (Cons p ps)
  let ?w1 = "(called (insert_call oid p) w)
               \<lparr>txn := Some (t\<lparr>order_items := order_items t @ [item_row oid p]\<rparr>)\<rparr>"
  have f: "faults (ncalls w) = None" using Cons.prems(2) by fastforce
  have step: "insert_items faults oid (p # ps) w = insert_items faults oid ps ?w1"
    using f Cons.prems(1) by (simp add: insert_order_item_eq)
  have nf1: "\<forall>j < length ps. faults (ncalls ?w1 + j) = None"
  proof (intro allI impI)
    fix j assume "j < length ps"
    then have "faults (ncalls w + Suc j) = None" using Cons.prems(2) by fastforce
    then show "faults (ncalls ?w1 + j) = None" by (simp add: called_def)
  qed
  have "txn ?w1 = Some (t\<lparr>order_items := order_items t @ [item_row oid p]\<rparr>)" by simp
  from Cons.IH[OF this nf1] show ?case unfolding step .
qed

text \<open>
  The \<^verbatim>\<open>try\<close> block returns when every item passes the check and names a product and no
  planned call throws.
\<close>

lemma transaction_ok:
  assumes idle: "txn w = None"
    and valid: "\<forall>x \<in> set (arr_of (items req)). \<not> item_invalid x \<and> known (durable w) x"
    and nf: "\<forall>j < length (planned_calls (durable w) (next_order_id w) req).
               faults (ncalls w + j) = None"
  shows "\<exists>w'. transaction faults req w =
           (Inr (next_order_id w, order_total (durable w) (arr_of (items req))), w')"
proof -
  let ?d = "durable w" and ?n = "next_order_id w" and ?its = "arr_of (items req)"
  have nf': "\<And>j. j < 2 * length ?its + 3 \<Longrightarrow> faults (ncalls w + j) = None"
    using nf by (simp add: length_planned_calls)
  have cur: "current w = ?d" using idle by (simp add: current_def)
  define w1 where "w1 = (called BeginTransaction w)\<lparr>txn := Some ?d\<rparr>"
  have bt: "beginTransaction faults w = (Inr (), w1)"
    using nf'[of 0] cur by (simp add: beginTransaction_eq w1_def)
  have w1: "ncalls w1 = Suc (ncalls w)" "txn w1 = Some ?d" "next_order_id w1 = ?n"
    "current w1 = ?d"
    by (simp_all add: w1_def called_def current_def)
  define w2 where "w2 = more_calls (map sel ?its) w1"
  have "\<forall>j < length ?its. faults (ncalls w1 + j) = None"
    using nf'[of "Suc j" for j] w1(1) by simp
  with reconcile_prefix[of ?its w1 faults "[]" "Fin 0" "[]"] valid w1(4)
  have rec: "reconcile faults ?its (Fin 0) [] w1 =
      (Inr (order_total ?d ?its, map (reconciled ?d) ?its), w2)"
    by (simp add: w2_def order_total_def)
  have w2: "ncalls w2 = ncalls w + length ?its + 1" "txn w2 = Some ?d" "next_order_id w2 = ?n"
    using w1 by (simp_all add: w2_def more_calls_def)
  let ?ins = "InsertOrder (str_of (customerIdentifier req)) (str_of (customerName req))
                (order_total ?d ?its) ''completed''"
  define t3 where "t3 = ?d\<lparr>orders := orders ?d @ [new_order ?d ?n req]\<rparr>"
  define w3 where "w3 = (called ?ins w2)\<lparr>txn := Some t3, next_order_id := ?n + 1\<rparr>"
  have "faults (ncalls w2) = None" using nf'[of "length ?its + 1"] w2(1) by simp
  then have ins: "insert_order faults (str_of (customerIdentifier req))
      (str_of (customerName req)) (order_total ?d ?its) ''completed'' w2 = (Inr ?n, w3)"
    using w2 by (simp add: insert_order_eq w3_def t3_def new_order_def)
  have w3: "ncalls w3 = ncalls w + length ?its + 2" "txn w3 = Some t3"
    using w2 by (simp_all add: w3_def called_def)
  have nf3: "\<forall>j < length (map (reconciled ?d) ?its). faults (ncalls w3 + j) = None"
  proof (intro allI impI)
    fix j assume "j < length (map (reconciled ?d) ?its)"
    then have "faults (ncalls w + (length ?its + 2 + j)) = None" by (intro nf') simp
    then show "faults (ncalls w3 + j) = None" using w3(1) by (simp add: add.assoc)
  qed
  from insert_items_ok[OF w3(2) nf3] obtain w4 where
    items: "insert_items faults ?n (map (reconciled ?d) ?its) w3 = (Inr (), w4)"
    by blast
  from insert_items_run[OF items w3(2)] have w4: "ncalls w4 = ncalls w3 + length ?its"
    by auto
  have "faults (ncalls w + (2 * length ?its + 2)) = None" by (intro nf') simp
  moreover have "ncalls w4 = ncalls w + (2 * length ?its + 2)" using w4 w3(1) by simp
  ultimately have "faults (ncalls w4) = None" by simp
  then show ?thesis
    using bt rec ins items by (simp add: transaction_def commit_eq)
qed

text \<open>
  The \<^verbatim>\<open>try\<close> block throws at the first item that fails the check or names no product.
\<close>

lemma transaction_item_fails:
  assumes idle: "txn w = None"
    and split: "arr_of (items req) = pre @ it # post"
    and pre: "\<forall>x \<in> set pre. \<not> item_invalid x \<and> known (durable w) x"
    and nf: "\<forall>j \<le> length pre. faults (ncalls w + j) = None"
  shows "item_invalid it \<Longrightarrow>
           transaction faults req w =
             (Inl invalid_item_message,
              (more_calls (BeginTransaction # map sel pre) w)\<lparr>txn := Some (durable w)\<rparr>)"
    and "\<not> item_invalid it \<Longrightarrow> \<not> known (durable w) it \<Longrightarrow>
         faults (ncalls w + length pre + 1) = None \<Longrightarrow>
           transaction faults req w =
             (Inl (not_found_message (to_number (product_id it))),
              (more_calls (BeginTransaction # map sel (pre @ [it])) w)
                \<lparr>txn := Some (durable w)\<rparr>)"
proof -
  let ?d = "durable w"
  have cur: "current w = ?d" using idle by (simp add: current_def)
  define w1 where "w1 = (called BeginTransaction w)\<lparr>txn := Some ?d\<rparr>"
  have "faults (ncalls w) = None" using nf by fastforce
  then have bt: "beginTransaction faults w = (Inr (), w1)"
    using cur by (simp add: beginTransaction_eq w1_def)
  have w1: "ncalls w1 = Suc (ncalls w)" "current w1 = ?d"
    by (simp_all add: w1_def called_def current_def)
  define w2 where "w2 = more_calls (map sel pre) w1"
  have w2: "ncalls w2 = ncalls w + length pre + 1" "current w2 = ?d"
    using w1 by (simp_all add: w2_def current_more_calls) (simp add: more_calls_def)
  have "\<forall>j < length pre. faults (ncalls w1 + j) = None"
  proof (intro allI impI)
    fix j assume "j < length pre"
    then have "Suc j \<le> length pre" by simp
    with nf have "faults (ncalls w + Suc j) = None" by blast
    then show "faults (ncalls w1 + j) = None" using w1(1) by simp
  qed
  with reconcile_prefix[of pre w1 faults "it # post" "Fin 0" "[]"] pre w1(2) split
  have rec: "reconcile faults (arr_of (items req)) (Fin 0) [] w1 =
      reconcile faults (it # post) (order_total ?d pre) (map (reconciled ?d) pre) w2"
    by (simp add: w2_def order_total_def)
  have eq2: "w2 = (more_calls (BeginTransaction # map sel pre) w)\<lparr>txn := Some ?d\<rparr>"
    by (simp add: w2_def w1_def more_calls_def called_def)
  show "item_invalid it \<Longrightarrow>
           transaction faults req w =
             (Inl invalid_item_message,
              (more_calls (BeginTransaction # map sel pre) w)\<lparr>txn := Some (durable w)\<rparr>)"
    using bt rec eq2 by (simp add: transaction_def)
  show "\<not> item_invalid it \<Longrightarrow> \<not> known (durable w) it \<Longrightarrow>
         faults (ncalls w + length pre + 1) = None \<Longrightarrow>
           transaction faults req w =
             (Inl (not_found_message (to_number (product_id it))),
              (more_calls (BeginTransaction # map sel (pre @ [it])) w)
                \<lparr>txn := Some (durable w)\<rparr>)"
    using bt rec w2
    by (simp add: transaction_def select_price_eq known_def w2_def w1_def more_calls_def
          called_def sel_def)
qed

subsection \<open>The early checks\<close>

lemma trim_empty_iff: "trim s = [] \<longleftrightarrow> list_all js_space s"
proof
  assume "trim s = []"
  then have "\<forall>x \<in> set (dropWhile js_space s). js_space x"
    by (simp add: trim_def dropWhile_eq_Nil_conv)
  then have "dropWhile js_space s = []"
    using hd_dropWhile[of js_space s] hd_in_set[of "dropWhile js_space s"] by blast
  then show "list_all js_space s"
    by (simp add: dropWhile_eq_Nil_conv list_all_iff)
next
  assume "list_all js_space s"
  then have "\<forall>x \<in> set s. js_space x"
    by (simp add: list_all_iff)
  then have "\<forall>x \<in> set (dropWhile js_space s). js_space x"
    by (meson set_dropWhileD)
  then show "trim s = []"
    by (simp add: trim_def)
qed

lemma falsy_str_blank: "falsy_str x \<or> trim (str_of x) = [] \<longleftrightarrow> blank x"
  by (cases x) (auto simp: blank_def trim_empty_iff)

lemma falsy_arr_no_items: "falsy_arr (items req) \<or> length (arr_of (items req)) = 0 \<longleftrightarrow> no_items req"
  by (cases "items req") (auto simp: no_items_def)

lemma header_error_None_iff:
  "header_error req = None \<longleftrightarrow>
     \<not> no_items req \<and> \<not> blank (customerIdentifier req) \<and> \<not> blank (customerName req)"
  unfolding header_error_def falsy_str_blank falsy_arr_no_items by simp

subsection \<open>Outcomes of the handler\<close>

text \<open>What a run that answers 201 has done.\<close>

lemma created_run:
  assumes "response (create_order faults req (start d n)) = Some (201, b)"
  shows "header_error req = None"
    and "b = created_body d n req"
    and "\<forall>j < length (planned_calls d n req) + 1. faults j = None"
    and "\<forall>it \<in> set (arr_of (items req)). \<not> item_invalid it \<and> known d it"
    and "uncaught (create_order faults req (start d n)) = None"
    and "trace (final (create_order faults req (start d n))) =
           Call GetConnection # map Call (planned_calls d n req) @
           [Respond 201 (created_body d n req), Call Release]"
    and "durable (final (create_order faults req (start d n))) =
           d\<lparr>orders := orders d @ [new_order d n req],
             order_items := order_items d @
               map (\<lambda>it. item_row n (reconciled d it)) (arr_of (items req))\<rparr>"
    and "txn (final (create_order faults req (start d n))) = None"
proof -
  show hdr: "header_error req = None"
  proof (cases "header_error req")
    case (Some m)
    with assms show ?thesis by (simp add: create_order_header)
  qed simp
  note c = create_order_cases[OF hdr, of faults d n]
  show "b = created_body d n req" by (rule c) (use assms in simp_all)
  show "\<forall>j < length (planned_calls d n req) + 1. faults j = None"
    by (rule c) (use assms in simp_all)
  show "\<forall>it \<in> set (arr_of (items req)). \<not> item_invalid it \<and> known d it"
    by (rule c) (use assms in simp_all)
  show "uncaught (create_order faults req (start d n)) = None"
    by (rule c) (use assms in simp_all)
  show "trace (final (create_order faults req (start d n))) =
           Call GetConnection # map Call (planned_calls d n req) @
           [Respond 201 (created_body d n req), Call Release]"
    by (rule c) (use assms in simp_all)
  show "durable (final (create_order faults req (start d n))) =
           d\<lparr>orders := orders d @ [new_order d n req],
             order_items := order_items d @
               map (\<lambda>it. item_row n (reconciled d it)) (arr_of (items req))\<rparr>"
    by (rule c) (use assms in simp_all)
  show "txn (final (create_order faults req (start d n))) = None"
    by (rule c) (use assms in simp_all)
qed

text \<open>A run that does not answer 201 leaves the durable tables as they were.\<close>

lemma not_created_durable:
  assumes "\<forall>b. response (create_order faults req (start d n)) \<noteq> Some (201, b)"
  shows "durable (final (create_order faults req (start d n))) = d"
proof (cases "header_error req")
  case (Some m)
  then show ?thesis by (simp add: create_order_header respond_def start_def)
next
  case None
  then show ?thesis using assms by (cases rule: create_order_cases[of req faults d n]) simp_all
qed

text \<open>A run answers 201 when the request is well-formed and no planned call throws.\<close>

lemma create_order_ok:
  assumes hdr: "header_error req = None"
    and valid: "\<forall>it \<in> set (arr_of (items req)). \<not> item_invalid it \<and> known d it"
    and nf: "\<forall>j < length (planned_calls d n req) + 1. faults j = None"
  shows "response (create_order faults req (start d n)) = Some (201, created_body d n req)"
proof -
  define w1 where "w1 = called GetConnection (start d n)"
  have w1: "ncalls w1 = 1" "durable w1 = d" "txn w1 = None" "next_order_id w1 = n"
    by (simp_all add: w1_def called_def start_def)
  have "faults 0 = None" using nf by simp
  then have gc: "getConnection faults (start d n) = (Inr (), w1)"
    by (simp add: getConnection_eq w1_def start_def)
  have "\<forall>j < length (planned_calls (durable w1) (next_order_id w1) req).
          faults (ncalls w1 + j) = None"
    using nf w1 by simp
  from transaction_ok[OF w1(3) _ this] valid w1 obtain w2 where
    "transaction faults req w1 = (Inr (n, order_total d (arr_of (items req))), w2)"
    by auto
  then show ?thesis using hdr gc
    by (simp add: create_order_def created_body_def Let_def)
qed

text \<open>
  The response and the trace when the first failing item fails the check, and when it
  names no product, provided no call up to the rollback throws.
\<close>

lemma create_order_item_fails:
  assumes hdr: "header_error req = None"
    and split: "arr_of (items req) = pre @ it # post"
    and pre: "\<forall>x \<in> set pre. \<not> item_invalid x \<and> known d x"
  shows "item_invalid it \<Longrightarrow> \<forall>j < length pre + 3. faults j = None \<Longrightarrow>
           response (create_order faults req (start d n)) =
             Some (500, Message (failure_message invalid_item_message)) \<and>
           uncaught (create_order faults req (start d n)) = None \<and>
           trace (final (create_order faults req (start d n))) =
             Call GetConnection # Call BeginTransaction # map Call (map sel pre) @
             [Call Rollback, Respond 500 (Message (failure_message invalid_item_message)),
              Call Release]"
    and "\<not> item_invalid it \<Longrightarrow> \<not> known d it \<Longrightarrow> \<forall>j < length pre + 4. faults j = None \<Longrightarrow>
           response (create_order faults req (start d n)) =
             Some (500, Message (failure_message (not_found_message (to_number (product_id it))))) \<and>
           uncaught (create_order faults req (start d n)) = None \<and>
           trace (final (create_order faults req (start d n))) =
             Call GetConnection # Call BeginTransaction # map Call (map sel (pre @ [it])) @
             [Call Rollback,
              Respond 500 (Message (failure_message (not_found_message (to_number (product_id it))))),
              Call Release]"
proof -
  define w1 where "w1 = called GetConnection (start d n)"
  have w1: "ncalls w1 = 1" "durable w1 = d" "txn w1 = None" "trace w1 = [Call GetConnection]"
    by (simp_all add: w1_def called_def start_def)
  have pre1: "\<forall>x \<in> set pre. \<not> item_invalid x \<and> known (durable w1) x"
    using pre w1 by simp
  {
    assume bad: "item_invalid it" and nf: "\<forall>j < length pre + 3. faults j = None"
    have "faults 0 = None" using nf by simp
    then have gc: "getConnection faults (start d n) = (Inr (), w1)"
      by (simp add: getConnection_eq w1_def start_def)
    have nf1: "\<forall>j \<le> length pre. faults (ncalls w1 + j) = None" using nf w1 by simp
    define w2 where "w2 = (more_calls (BeginTransaction # map sel pre) w1)\<lparr>txn := Some d\<rparr>"
    have tr: "transaction faults req w1 = (Inl invalid_item_message, w2)"
      using transaction_item_fails(1)[OF w1(3) split pre1 nf1 bad] w1 by (simp add: w2_def)
    have "ncalls w2 = length pre + 2" using w1 by (simp add: w2_def more_calls_def)
    then have "faults (ncalls w2) = None" using nf by simp
    then have "create_order faults req (start d n) =
        \<lparr>response = Some (500, Message (failure_message invalid_item_message)), uncaught = None,
         final = release (respond 500 (Message (failure_message invalid_item_message))
                   ((called Rollback w2)\<lparr>txn := None\<rparr>))\<rparr>"
      using hdr gc tr by (simp add: create_order_def rollback_eq)
    then have "response (create_order faults req (start d n)) =
             Some (500, Message (failure_message invalid_item_message)) \<and>
           uncaught (create_order faults req (start d n)) = None \<and>
           trace (final (create_order faults req (start d n))) =
             Call GetConnection # Call BeginTransaction # map Call (map sel pre) @
             [Call Rollback, Respond 500 (Message (failure_message invalid_item_message)),
              Call Release]"
      using w1 by (simp add: release_def respond_def called_def w2_def more_calls_def)
  }
  then show "item_invalid it \<Longrightarrow> \<forall>j < length pre + 3. faults j = None \<Longrightarrow>
           response (create_order faults req (start d n)) =
             Some (500, Message (failure_message invalid_item_message)) \<and>
           uncaught (create_order faults req (start d n)) = None \<and>
           trace (final (create_order faults req (start d n))) =
             Call GetConnection # Call BeginTransaction # map Call (map sel pre) @
             [Call Rollback, Respond 500 (Message (failure_message invalid_item_message)),
              Call Release]" .
  {
    let ?msg = "not_found_message (to_number (product_id it))"
    assume ok: "\<not> item_invalid it" and unknown: "\<not> known d it"
      and nf: "\<forall>j < length pre + 4. faults j = None"
    have "faults 0 = None" using nf by simp
    then have gc: "getConnection faults (start d n) = (Inr (), w1)"
      by (simp add: getConnection_eq w1_def start_def)
    have nf1: "\<forall>j \<le> length pre. faults (ncalls w1 + j) = None" using nf w1 by simp
    have nf2: "faults (ncalls w1 + length pre + 1) = None" using nf w1 by simp
    define w2 where "w2 = (more_calls (BeginTransaction # map sel (pre @ [it])) w1)\<lparr>txn := Some d\<rparr>"
    have unknown1: "\<not> known (durable w1) it" using unknown w1 by simp
    have tr: "transaction faults req w1 = (Inl ?msg, w2)"
      using transaction_item_fails(2)[OF w1(3) split pre1 nf1 ok unknown1 nf2] w1
      by (simp add: w2_def)
    have "ncalls w2 = length pre + 3" using w1 by (simp add: w2_def more_calls_def)
    then have "faults (ncalls w2) = None" using nf by simp
    then have "create_order faults req (start d n) =
        \<lparr>response = Some (500, Message (failure_message ?msg)), uncaught = None,
         final = release (respond 500 (Message (failure_message ?msg))
                   ((called Rollback w2)\<lparr>txn := None\<rparr>))\<rparr>"
      using hdr gc tr by (simp add: create_order_def rollback_eq)
    then have "response (create_order faults req (start d n)) =
             Some (500, Message (failure_message ?msg)) \<and>
           uncaught (create_order faults req (start d n)) = None \<and>
           trace (final (create_order faults req (start d n))) =
             Call GetConnection # Call BeginTransaction # map Call (map sel (pre @ [it])) @
             [Call Rollback, Respond 500 (Message (failure_message ?msg)), Call Release]"
      using w1 by (simp add: release_def respond_def called_def w2_def more_calls_def)
  }
  then show "\<not> item_invalid it \<Longrightarrow> \<not> known d it \<Longrightarrow> \<forall>j < length pre + 4. faults j = None \<Longrightarrow>
           response (create_order faults req (start d n)) =
             Some (500, Message (failure_message (not_found_message (to_number (product_id it))))) \<and>
           uncaught (create_order faults req (start d n)) = None \<and>
           trace (final (create_order faults req (start d n))) =
             Call GetConnection # Call BeginTransaction # map Call (map sel (pre @ [it])) @
             [Call Rollback,
              Respond 500 (Message (failure_message (not_found_message (to_number (product_id it))))),
              Call Release]" .
qed

text \<open>
  The response when a store call throws: call \<open>k\<close> is the first that throws, the loop has
  not stopped at a line item before it, and the rollback returns.
\<close>

lemma create_order_store_error:
  assumes hdr: "header_error req = None"
    and thrown: "faults k = Some m" and first: "\<forall>j < k. faults j = None"
    and reached: "case first_bad d (arr_of (items req)) of
                    None \<Rightarrow> k \<le> 2 * length (arr_of (items req)) + 3
                  | Some (c, e) \<Rightarrow> k \<le> c + 1"
    and rb: "k = 0 \<or> faults (Suc k) = None"
  shows "response (create_order faults req (start d n)) =
           Some (500, Message (failure_message [Chars m])) \<and>
         uncaught (create_order faults req (start d n)) = None"
proof -
  let ?its = "arr_of (items req)"
  have cause: "k' = k \<and> e = [Chars m]"
    if why: "failed_by faults 1 d ?its k' (k' - 1) e" and pos: "0 < k'" and conn: "faults 0 = None"
    for k' e
  proof -
    have "k \<noteq> 0"
    proof
      assume "k = 0"
      with conn thrown show False by simp
    qed
    then have k0: "0 < k" by simp
    from why consider
      (call) m' where "faults (1 + k' - 1) = Some m'" "e = [Chars m']"
        "\<forall>j < k' - 1. faults (1 + j) = None"
    | (item) "\<forall>j < k'. faults (1 + j) = None" "first_bad d ?its = Some (k' - 1, e)"
      unfolding failed_by_def by blast
    then show ?thesis
    proof cases
      case call
      have "\<not> k < k'"
      proof
        assume "k < k'"
        then have "k - 1 < k' - 1" "1 + (k - 1) = k" using k0 by simp_all
        with call(3) have "faults k = None" by metis
        with thrown show False by simp
      qed
      moreover have "\<not> k' < k" using first call(1) by auto
      ultimately have "k' = k" by simp
      with call(1,2) thrown show ?thesis by simp
    next
      case item
      with reached have "k \<le> k'" using pos by simp
      then have "k - 1 < k'" "1 + (k - 1) = k" using k0 by simp_all
      with item(1) have "faults k = None" by metis
      with thrown show ?thesis by simp
    qed
  qed
  from hdr show ?thesis
  proof (cases rule: create_order_cases[of req faults d n])
    case (no_connection m')
    with first have "k = 0" by (cases k) auto
    with no_connection thrown show ?thesis by simp
  next
    case created
    then have "first_bad d ?its = None" by (simp add: first_bad_None_iff)
    with reached have "k < length (planned_calls d n req) + 1"
      by (simp add: length_planned_calls)
    with created(1) thrown show ?thesis by simp
  next
    case (rolled_back k' e)
    from cause[OF rolled_back(5,2,1)] rolled_back(6,7) show ?thesis by simp
  next
    case (rollback_failed k' e m')
    from cause[OF rollback_failed(5,2,1)] have "k' = k" by simp
    moreover have "k \<noteq> 0"
    proof
      assume "k = 0"
      with rollback_failed(1) thrown show False by simp
    qed
    ultimately show ?thesis using rb rollback_failed(4) by simp
  qed
qed

subsection \<open>Reading the stored rows and the planned calls\<close>

lemma image_or_null_cases:
  "image_or_null u = (case u of Val s \<Rightarrow> if s = [] then None else Some s
                      | Undefined \<Rightarrow> None | Null \<Rightarrow> None)"
  by (cases u) (simp_all add: image_or_null_def)

lemma known_price:
  "known d it \<Longrightarrow> find_price d (to_number (product_id it)) = Some (authoritative_price d it)"
  by (auto simp: known_def authoritative_price_def)

lemma known_dom:
  "known d it \<longleftrightarrow>
     (case id_of (to_number (product_id it)) of None \<Rightarrow> False | Some i \<Rightarrow> i \<in> dom (products d))"
  by (auto simp: known_def find_price_def split: option.splits)

lemma item_row_reconciled:
  "item_row n (reconciled d it) =
     \<lparr>oi_order_id = n, oi_product_id = to_number (product_id it),
      oi_quantity = to_number (quantity it), oi_price_at_order = authoritative_price d it,
      oi_product_name = str_of (name it), oi_image_url = image_or_null (image_url it)\<rparr>"
  by (simp add: item_row_def reconciled_def to_insert_def)

lemma planned_calls_kinds:
  "Rollback \<notin> set (planned_calls d n req)"
  "Release \<notin> set (planned_calls d n req)"
  "GetConnection \<notin> set (planned_calls d n req)"
  "Commit \<in> set (planned_calls d n req)"
  by (auto simp: planned_calls_def sel_def insert_call_def)

lemma planned_calls_explicit:
  "planned_calls d n req =
     BeginTransaction #
     map (\<lambda>it. SelectPrice (to_number (product_id it))) (arr_of (items req)) @
     [InsertOrder (str_of (customerIdentifier req)) (str_of (customerName req))
        (order_total d (arr_of (items req))) ''completed''] @
     map (\<lambda>it. InsertOrderItem n (to_number (product_id it)) (to_number (quantity it))
                 (authoritative_price d it) (str_of (name it)) (image_or_null (image_url it)))
       (arr_of (items req)) @
     [Commit]"
  by (simp add: planned_calls_def sel_def[abs_def] insert_call_def reconciled_def to_insert_def)

lemma zero_is_invalid:
  "product_id it = Val 0 \<or> quantity it = Val 0 \<or> price_at_order it = Val 0 \<Longrightarrow>
   item_invalid it"
  by (auto simp: item_invalid_def falsy_num_def)

text \<open>
  The fields the handler reads after its checks are present: the conversions of
  \<^verbatim>\<open>undefined\<close> and \<^verbatim>\<open>null\<close> by \<open>to_number\<close> and the defaults of \<open>str_of\<close> and \<open>arr_of\<close> are
  not read. The quantity is positive: a double nearest to a number that is not positive is
  not positive.
\<close>

lemma pow2_pos: "0 < pow2 k"
  by (simp add: pow2_def)

lemma quantum_pos: "0 < quantum r"
  by (simp add: quantum_def pow2_pos)

lemma round_even_nonpos: "y \<le> 0 \<Longrightarrow> round_even y \<le> 0"
proof -
  assume y: "y \<le> 0"
  then have fl: "\<lfloor>y\<rfloor> \<le> 0" by (simp add: floor_le_zero)
  show ?thesis
  proof (cases "\<lfloor>y\<rfloor> = 0")
    case True
    then have "0 \<le> y" by (metis of_int_floor_le of_int_0)
    with y have "y = 0" by simp
    then show ?thesis by (simp add: round_even_def)
  next
    case False
    with fl have "\<lfloor>y\<rfloor> + 1 \<le> 0" by linarith
    with fl show ?thesis unfolding round_even_def by presburger
  qed
qed

lemma to_double_nonpos: "r \<le> 0 \<Longrightarrow> not_positive (to_double r)"
proof -
  assume r: "r \<le> 0"
  then have "r / quantum r \<le> 0" using quantum_pos[of r] by (simp add: divide_le_0_iff)
  then have "round_even (r / quantum r) \<le> 0" by (rule round_even_nonpos)
  then have "of_int (round_even (r / quantum r)) * quantum r \<le> 0"
    using quantum_pos[of r] by (simp add: mult_le_0_iff)
  then show ?thesis using r by (simp add: to_double_def)
qed

lemma not_falsy_num: "\<not> falsy_num u \<Longrightarrow> \<exists>r. u = Val r \<and> r \<noteq> 0"
proof (cases u)
  case (Val r)
  assume "\<not> falsy_num u"
  with Val have "r \<noteq> 0" by (cases "r = 0") (simp_all add: falsy_num_def)
  with Val show ?thesis by simp
qed (simp_all add: falsy_num_def)

lemma not_le_zero: "u = Val q \<Longrightarrow> \<not> le_zero u \<Longrightarrow> 0 < q"
  using to_double_nonpos[of q] by (cases "0 < q") (simp_all add: le_zero_def)

lemma item_valid_fields:
  assumes "\<not> item_invalid it"
  shows "\<exists>pid q nm p. product_id it = Val pid \<and> pid \<noteq> 0 \<and> quantity it = Val q \<and> 0 < q \<and>
           name it = Val nm \<and> nm \<noteq> [] \<and> price_at_order it = Val p \<and> p \<noteq> 0"
proof -
  from assms have f: "\<not> falsy_num (product_id it)" "\<not> falsy_num (quantity it)"
    "\<not> le_zero (quantity it)" "\<not> falsy_str (name it)" "\<not> falsy_num (price_at_order it)"
    by (simp_all add: item_invalid_def)
  from f(1) obtain pid where "product_id it = Val pid" "pid \<noteq> 0"
    using not_falsy_num by blast
  moreover from f(2,3) obtain q where "quantity it = Val q" "0 < q"
    using not_falsy_num not_le_zero by blast
  moreover from f(4) obtain nm where "name it = Val nm" "nm \<noteq> []"
    by (cases "name it") simp_all
  moreover from f(5) obtain p where "price_at_order it = Val p" "p \<noteq> 0"
    using not_falsy_num by blast
  ultimately show ?thesis by blast
qed

lemma header_valid_fields:
  assumes "header_error req = None"
  shows "\<exists>its ci cn. items req = Val its \<and> its \<noteq> [] \<and>
           customerIdentifier req = Val ci \<and> trim ci \<noteq> [] \<and>
           customerName req = Val cn \<and> trim cn \<noteq> []"
proof -
  from assms have f: "\<not> falsy_arr (items req)" "arr_of (items req) \<noteq> []"
    "\<not> falsy_str (customerIdentifier req)" "trim (str_of (customerIdentifier req)) \<noteq> []"
    "\<not> falsy_str (customerName req)" "trim (str_of (customerName req)) \<noteq> []"
    by (auto simp: header_error_def split: if_splits)
  from f(1,2) obtain its where "items req = Val its" "its \<noteq> []"
    by (cases "items req") simp_all
  moreover from f(3,4) obtain ci where "customerIdentifier req = Val ci" "trim ci \<noteq> []"
    by (cases "customerIdentifier req") simp_all
  moreover from f(5,6) obtain cn where "customerName req = Val cn" "trim cn \<noteq> []"
    by (cases "customerName req") simp_all
  ultimately show ?thesis by blast
qed

text \<open>
  The client's price enters the check of the loop only through being present and not
  zero, and enters nothing that is looked up or stored.
\<close>

lemma reprice_irrelevant:
  assumes "\<not> falsy_num p"
  shows "\<not> item_invalid it \<Longrightarrow> \<not> item_invalid (it\<lparr>price_at_order := p\<rparr>)"
    and "known d (it\<lparr>price_at_order := p\<rparr>) = known d it"
    and "contribution d (it\<lparr>price_at_order := p\<rparr>) = contribution d it"
    and "reconciled d (it\<lparr>price_at_order := p\<rparr>) = reconciled d it"
    and "sel (it\<lparr>price_at_order := p\<rparr>) = sel it"
  using assms
  by (auto simp: item_invalid_def known_def contribution_def authoritative_price_def
        reconciled_def to_insert_def sel_def)

text \<open>
  When no conversion, product or partial sum is rounded, the running total is the exact sum.
\<close>

lemma unrounded_total:
  "unrounded d t its \<Longrightarrow> running_total d (Fin t) its = Fin (t + exact_total d its)"
proof (induction its arbitrary: t)
  case Nil
  then show ?case by (simp add: exact_total_def)
next
  case (Cons it its)
  from Cons.prems obtain q where q: "quantity it = Val q"
    and ex: "exact (authoritative_price d it)" "exact q" "exact (authoritative_price d it * q)"
      "exact (t + authoritative_price d it * q)"
    and rest: "unrounded d (t + authoritative_price d it * q) its"
    by (cases "quantity it") simp_all
  have "contribution d it = Fin (authoritative_price d it * q)"
    using q ex(1,2,3) by (simp add: contribution_def exact_def)
  then have "dadd (Fin t) (contribution d it) = Fin (t + authoritative_price d it * q)"
    using ex(4) by (simp add: exact_def)
  then show ?case
    using Cons.IH[OF rest] q by (simp add: exact_total_def add.assoc)
qed

text \<open>
  A whole number below \<open>2 ^ 53\<close> is a double, so sums and products of such numbers are not
  rounded as long as they stay below \<open>2 ^ 53\<close>.
\<close>

lemma bits_bounds:
  "1 \<le> n \<Longrightarrow> 0 \<le> bits n \<and> 2 ^ nat (bits n) \<le> n \<and> n < 2 * 2 ^ nat (bits n)"
proof (induction n rule: bits.induct)
  case (1 n)
  show ?case
  proof (cases "n < 2")
    case True
    with "1.prems" have "n = 1" by simp
    then show ?thesis by (simp add: bits.simps)
  next
    case False
    then have half: "1 \<le> n div 2" by simp
    from "1.IH"[OF False half] have ih: "0 \<le> bits (n div 2)"
      "2 ^ nat (bits (n div 2)) \<le> n div 2" "n div 2 < 2 * 2 ^ nat (bits (n div 2))"
      by simp_all
    have b: "bits n = 1 + bits (n div 2)" using False by (simp add: bits.simps)
    have p: "(2::int) ^ nat (bits n) = 2 * 2 ^ nat (bits (n div 2))"
      using ih(1) b by (simp add: nat_add_distrib)
    have "2 * (n div 2) \<le> n" "n < 2 * (n div 2) + 2" by simp_all
    with ih p b show ?thesis by simp
  qed
qed

lemma round_even_of_int: "round_even (of_int z) = z"
  by (simp add: round_even_def)

lemma to_double_of_int:
  assumes "1 \<le> n" and "n < 2 ^ 53"
  shows "to_double (of_int n) = Fin (of_int n)"
proof -
  let ?b = "bits n"
  from bits_bounds[OF assms(1)] have b: "0 \<le> ?b" "2 ^ nat ?b \<le> n" "n < 2 * 2 ^ nat ?b"
    by simp_all
  have lt: "(2::int) ^ nat ?b < 2 ^ 53" using b(2) assms(2) by linarith
  have "nat ?b < 53" by (rule power_less_imp_less_exp[of "2::int"]) (simp, fact lt)
  then have b52: "?b \<le> 52" by simp
  have fl: "floor_log2 \<bar>of_int n\<bar> = ?b" using assms(1) by (simp add: floor_log2_def)
  have q: "quantum (of_int n) = 1 / 2 ^ nat (52 - ?b)"
  proof (cases "?b = 52")
    case True
    then show ?thesis using b(1) by (simp add: quantum_def fl pow2_def)
  next
    case False
    with b52 have "?b < 52" by simp
    then show ?thesis using b(1) by (simp add: quantum_def fl pow2_def)
  qed
  have "of_int n / quantum (of_int n) = (of_int (n * 2 ^ nat (52 - ?b)) :: rat)"
    by (simp add: q)
  then have r: "round_even (of_int n / quantum (of_int n)) = n * 2 ^ nat (52 - ?b)"
    by (simp only: round_even_of_int)
  have v: "of_int (round_even (of_int n / quantum (of_int n))) * quantum (of_int n) =
      (of_int n :: rat)"
    unfolding r by (simp add: q)
  have "(of_int n :: rat) < 2 ^ 53"
    using assms(2) by (metis of_int_less_numeral_power_cancel_iff)
  also have "\<dots> \<le> 2 ^ 1024" by (rule power_increasing) simp_all
  finally have "\<bar>of_int n :: rat\<bar> < pow2 1024" using assms(1) by (simp add: pow2_def)
  then show ?thesis using assms(1) unfolding to_double_def v by simp
qed

lemma wholeD: "whole r \<Longrightarrow> r = of_int \<lfloor>r\<rfloor>" "whole r \<Longrightarrow> 0 \<le> r" "whole r \<Longrightarrow> r < 2 ^ 53"
  unfolding whole_def by metis+

lemma wholeI: "r = of_int z \<Longrightarrow> 0 \<le> r \<Longrightarrow> r < 2 ^ 53 \<Longrightarrow> whole r"
  unfolding whole_def by (metis floor_of_int)

lemma whole_exact: "whole r \<Longrightarrow> exact r"
proof -
  assume w: "whole r"
  then have r: "r = of_int \<lfloor>r\<rfloor>" "0 \<le> r" "r < 2 ^ 53" by (rule wholeD)+
  show ?thesis
  proof (cases "\<lfloor>r\<rfloor> = 0")
    case True
    with r(1) have "r = 0" by simp
    then show ?thesis by (simp add: exact_def)
  next
    case False
    moreover have "0 \<le> \<lfloor>r\<rfloor>" using r(2) by simp
    ultimately have "1 \<le> \<lfloor>r\<rfloor>" by linarith
    moreover have "\<lfloor>r\<rfloor> < 2 ^ 53" using r(3) by (simp add: floor_less_iff)
    ultimately have "to_double (of_int \<lfloor>r\<rfloor>) = Fin (of_int \<lfloor>r\<rfloor>)" by (rule to_double_of_int)
    with r(1) show ?thesis by (simp add: exact_def)
  qed
qed

lemma whole_add: "whole a \<Longrightarrow> whole b \<Longrightarrow> a + b < 2 ^ 53 \<Longrightarrow> whole (a + b)"
proof -
  assume a: "whole a" and b: "whole b" and lt: "a + b < 2 ^ 53"
  have "a + b = of_int (\<lfloor>a\<rfloor> + \<lfloor>b\<rfloor>)" using wholeD(1)[OF a] wholeD(1)[OF b] by simp
  moreover have "0 \<le> a + b" using wholeD(2)[OF a] wholeD(2)[OF b] by simp
  ultimately show ?thesis using lt by (rule wholeI)
qed

lemma whole_mult: "whole a \<Longrightarrow> whole b \<Longrightarrow> a * b < 2 ^ 53 \<Longrightarrow> whole (a * b)"
proof -
  assume a: "whole a" and b: "whole b" and lt: "a * b < 2 ^ 53"
  have "a * b = of_int (\<lfloor>a\<rfloor> * \<lfloor>b\<rfloor>)" using wholeD(1)[OF a] wholeD(1)[OF b] by simp
  moreover have "0 \<le> a * b" using wholeD(2)[OF a] wholeD(2)[OF b] by simp
  ultimately show ?thesis using lt by (rule wholeI)
qed

lemma whole_amounts_nonneg: "whole_amounts d its \<Longrightarrow> 0 \<le> exact_total d its"
proof (induction its)
  case Nil
  then show ?case by (simp add: exact_total_def)
next
  case (Cons it its)
  then obtain q where "quantity it = Val q" "whole q" "whole (authoritative_price d it)"
    "whole_amounts d its"
    by (cases "quantity it") (simp_all add: whole_amounts_def)
  then show ?case using Cons.IH wholeD(2) by (simp add: exact_total_def)
qed

lemma whole_unrounded:
  "whole_amounts d its \<Longrightarrow> whole t \<Longrightarrow> t + exact_total d its < 2 ^ 53 \<Longrightarrow> unrounded d t its"
proof (induction its arbitrary: t)
  case Nil
  then show ?case by simp
next
  case (Cons it its)
  let ?p = "authoritative_price d it"
  from Cons.prems(1) obtain q where q: "quantity it = Val q" "whole q" "whole ?p"
    and rest: "whole_amounts d its"
    by (cases "quantity it") (simp_all add: whole_amounts_def)
  have tot: "exact_total d (it # its) = ?p * q + exact_total d its"
    using q(1) by (simp add: exact_total_def)
  have nn: "0 \<le> exact_total d its" using rest by (rule whole_amounts_nonneg)
  have t0: "0 \<le> t" using Cons.prems(2) by (rule wholeD)
  have pq0: "0 \<le> ?p * q" using wholeD(2)[OF q(2)] wholeD(2)[OF q(3)] by simp
  have "?p * q < 2 ^ 53" using Cons.prems(3) tot nn t0 by simp
  with q(2,3) have wpq: "whole (?p * q)" by (intro whole_mult)
  have "t + ?p * q < 2 ^ 53" using Cons.prems(3) tot nn pq0 by simp
  with Cons.prems(2) wpq have wsum: "whole (t + ?p * q)" by (intro whole_add)
  have "t + ?p * q + exact_total d its < 2 ^ 53" using Cons.prems(3) tot by (simp add: add.assoc)
  from Cons.IH[OF rest wsum this] q wpq wsum show ?case by (simp add: whole_exact)
qed

lemma whole_total:
  assumes "whole_amounts d its" and "exact_total d its < 2 ^ 53"
  shows "order_total d its = Fin (exact_total d its)"
proof -
  have "whole 0" by (rule wholeI[of _ 0]) simp_all
  from whole_unrounded[OF assms(1) this] assms(2) have "unrounded d 0 its" by simp
  from unrounded_total[OF this] show ?thesis by (simp add: order_total_def)
qed

text \<open>The doubles of the example data.\<close>

lemma example_numbers:
  "to_double 1 = Fin 1" "to_double 2 = Fin 2" "to_double 3 = Fin 3" "to_double 4 = Fin 4"
  "to_double 7 = Fin 7" "to_double 9 = Fin 9" "to_double 10 = Fin 10"
  "to_double (5 / 2) = Fin (5 / 2)" "to_double 5 = Fin 5" "to_double 30 = Fin 30"
  "to_double 35 = Fin 35" "to_double 99 = Fin 99" "to_double (- 2) = Fin (- 2)"
  "to_double (1 / 10) = Fin (3602879701896397 / 2 ^ 55)"
  "to_double (1 / 5) = Fin (3602879701896397 / 2 ^ 54)"
  "to_double (3 / 10) = Fin (5404319552844595 / 2 ^ 54)"
  by (simp_all add: number_defs)

text \<open>The equations that evaluate a run on given data.\<close>

lemmas run_defs =
  create_order_def header_error_def trim_def js_space_def getConnection_eq transaction_def
  beginTransaction_eq select_price_eq insert_order_def insert_order_item_def commit_eq
  rollback_eq attempt_def store_write_def called_def current_def release_def respond_def
  start_def item_invalid_def to_insert_def image_or_null_def insert_call_def item_row_def
  failure_message_def invalid_item_message_def not_found_message_def find_price_def
  falsy_num_def le_zero_def example_numbers
  alice_def widget_def gadget_def shop_def kiosk_def candy_def gum_def no_faults_def
  fault_at_def Let_def

text \<open>
  When the rollback throws, the error leaves the handler and no response is sent; the
  connection is still released.
\<close>

lemma rollback_failure_escapes:
  "response (create_order (\<lambda>j. if 3 \<le> j then Some ''gone'' else None) (alice [widget, gadget])
     (start shop 1)) = None \<and>
   uncaught (create_order (\<lambda>j. if 3 \<le> j then Some ''gone'' else None) (alice [widget, gadget])
     (start shop 1)) = Some [Chars ''gone''] \<and>
   trace (final (create_order (\<lambda>j. if 3 \<le> j then Some ''gone'' else None)
     (alice [widget, gadget]) (start shop 1))) =
     [Call GetConnection, Call BeginTransaction, Call (SelectPrice (Fin 7)),
      Call (SelectPrice (Fin 9)), Call Rollback, Call Release]"
  by (simp add: run_defs)
section \<open>The claims\<close>

text \<open>
  Throughout, a run is \<open>create_order faults req (start d n)\<close>: the handler on request
  \<open>req\<close>, tables \<open>d\<close>, next order id \<open>n\<close> and fault schedule \<open>faults\<close>.
\<close>

subsection \<open>C1\<close>

text \<open>
  C1 as stated fails in its part on the order total: the handler computes the total in
  double precision (lines 206-207), so a line item does not always contribute its price
  times its quantity. A single line item of quantity 3 for a product at 1/10 creates an
  order whose persisted and returned total is 5404319552844596 / 2^54
  (\<^verbatim>\<open>0.30000000000000004\<close>), which is neither 3/10 nor the double nearest to 3/10. The
  persisted \<^verbatim>\<open>price_at_order\<close> is the price of the store, 1/10.
\<close>

theorem total_price_is_rounded:
  "response (create_order no_faults (alice [candy\<lparr>quantity := Val 3\<rparr>]) (start kiosk 1)) =
     Some (201, Created 1 (Val ''c1'') (Val ''Alice'') (Fin (5404319552844596 / 2 ^ 54))
                  ''completed'' ''Pesanan berhasil dibuat.'') \<and>
   orders (durable (final (create_order no_faults (alice [candy\<lparr>quantity := Val 3\<rparr>])
     (start kiosk 1)))) =
     [\<lparr>order_id = 1, customer_identifier = ''c1'', customer_name = ''Alice'',
       total_price = Fin (5404319552844596 / 2 ^ 54), status = ''completed''\<rparr>] \<and>
   order_items (durable (final (create_order no_faults (alice [candy\<lparr>quantity := Val 3\<rparr>])
     (start kiosk 1)))) =
     [\<lparr>oi_order_id = 1, oi_product_id = Fin 1, oi_quantity = Fin 3, oi_price_at_order = 1 / 10,
       oi_product_name = ''Candy'', oi_image_url = None\<rparr>] \<and>
   Fin (5404319552844596 / 2 ^ 54) \<noteq> Fin (1 / 10 * 3) \<and>
   Fin (5404319552844596 / 2 ^ 54) \<noteq> to_double (1 / 10 * 3)"
  by (simp add: run_defs number_defs)

text \<open>
  C1, amended: whenever an order is created (the response is 201), every line item names a
  product of the store, and each persisted \<^verbatim>\<open>order_items\<close> row carries as \<^verbatim>\<open>price_at_order\<close>
  the price of that product as looked up inside the transaction, unrounded. The persisted
  order total is the result of adding to 0, item after item and in double precision, the
  double-precision product of that price and the quantity; it is the exact sum of price
  times quantity whenever no conversion, product or partial sum is rounded. The client's
  \<^verbatim>\<open>price_at_order\<close> takes no part: replacing it in every item by any other present,
  non-zero value leaves the persisted tables the same.
\<close>

theorem persisted_price_is_store_price:
  assumes "response (create_order faults req (start d n)) = Some (201, b)"
  shows "(\<forall>it \<in> set (arr_of (items req)).
            \<exists>i. id_of (to_number (product_id it)) = Some i \<and>
                products d i = Some (authoritative_price d it)) \<and>
         order_items (durable (final (create_order faults req (start d n)))) =
           order_items d @
           map (\<lambda>it. \<lparr>oi_order_id = n, oi_product_id = to_number (product_id it),
                       oi_quantity = to_number (quantity it),
                       oi_price_at_order = authoritative_price d it,
                       oi_product_name = str_of (name it),
                       oi_image_url = image_or_null (image_url it)\<rparr>)
             (arr_of (items req)) \<and>
         orders (durable (final (create_order faults req (start d n)))) =
           orders d @
           [\<lparr>order_id = n, customer_identifier = str_of (customerIdentifier req),
             customer_name = str_of (customerName req),
             total_price =
               foldl (\<lambda>t it. dadd t (dmul (to_double (authoritative_price d it))
                                         (to_number (quantity it))))
                 (Fin 0) (arr_of (items req)),
             status = ''completed''\<rparr>] \<and>
         (unrounded d 0 (arr_of (items req)) \<longrightarrow>
            map total_price (orders (durable (final (create_order faults req (start d n))))) =
              map total_price (orders d) @
              [Fin (sum_list (map (\<lambda>it. authoritative_price d it *
                                      (case quantity it of Val q \<Rightarrow> q | _ \<Rightarrow> 0))
                       (arr_of (items req))))]) \<and>
         (\<forall>f. (\<forall>it. \<not> falsy_num (f it)) \<longrightarrow>
            durable (final (create_order faults
              (req\<lparr>items := Val (map (\<lambda>it. it\<lparr>price_at_order := f it\<rparr>) (arr_of (items req)))\<rparr>)
              (start d n))) =
            durable (final (create_order faults req (start d n))))"
proof (intro conjI allI impI)
  note run = created_run[OF assms]
  let ?its = "arr_of (items req)"
  show "\<forall>it \<in> set ?its. \<exists>i. id_of (to_number (product_id it)) = Some i \<and>
          products d i = Some (authoritative_price d it)"
  proof
    fix it assume "it \<in> set ?its"
    with run(4) have "find_price d (to_number (product_id it)) = Some (authoritative_price d it)"
      by (simp add: known_price)
    then show "\<exists>i. id_of (to_number (product_id it)) = Some i \<and>
                products d i = Some (authoritative_price d it)"
      by (cases "id_of (to_number (product_id it))") (simp_all add: find_price_def)
  qed
  show "order_items (durable (final (create_order faults req (start d n)))) =
           order_items d @
           map (\<lambda>it. \<lparr>oi_order_id = n, oi_product_id = to_number (product_id it),
                       oi_quantity = to_number (quantity it),
                       oi_price_at_order = authoritative_price d it,
                       oi_product_name = str_of (name it),
                       oi_image_url = image_or_null (image_url it)\<rparr>) ?its"
    using run(7) by (simp add: item_row_reconciled)
  show "orders (durable (final (create_order faults req (start d n)))) =
           orders d @
           [\<lparr>order_id = n, customer_identifier = str_of (customerIdentifier req),
             customer_name = str_of (customerName req),
             total_price =
               foldl (\<lambda>t it. dadd t (dmul (to_double (authoritative_price d it))
                                         (to_number (quantity it))))
                 (Fin 0) ?its,
             status = ''completed''\<rparr>]"
    using run(7)
    by (simp add: new_order_def order_total_def running_total_def contribution_def)
next
  note run = created_run[OF assms]
  let ?its = "arr_of (items req)"
  assume "unrounded d 0 ?its"
  from unrounded_total[OF this] have "order_total d ?its = Fin (exact_total d ?its)"
    by (simp add: order_total_def)
  then show "map total_price (orders (durable (final (create_order faults req (start d n))))) =
      map total_price (orders d) @
      [Fin (sum_list (map (\<lambda>it. authoritative_price d it *
                              (case quantity it of Val q \<Rightarrow> q | _ \<Rightarrow> 0)) ?its))]"
    using run(7) by (simp add: new_order_def exact_total_def)
next
  fix f :: "item \<Rightarrow> rat jsfield"
  assume f: "\<forall>it. \<not> falsy_num (f it)"
  note run = created_run[OF assms]
  let ?its = "arr_of (items req)"
  let ?g = "\<lambda>it. it\<lparr>price_at_order := f it\<rparr>"
  let ?req = "req\<lparr>items := Val (map ?g ?its)\<rparr>"
  have its: "arr_of (items ?req) = map ?g ?its" by simp
  have "?its \<noteq> []" using run(1) by (auto simp: header_error_def split: if_splits)
  then have hdr: "header_error ?req = None"
    using run(1) by (auto simp: header_error_def split: if_splits)
  have total: "order_total d (map ?g ?its) = order_total d ?its"
    using f by (simp add: order_total_def running_total_def reprice_irrelevant(3) foldl_map)
  have plan: "planned_calls d n ?req = planned_calls d n req"
    using f by (simp add: planned_calls_def total reprice_irrelevant(4,5) o_def)
  have valid: "\<forall>it \<in> set (arr_of (items ?req)). \<not> item_invalid it \<and> known d it"
    using run(4) f reprice_irrelevant(1,2) by (auto simp: its)
  have nf: "\<forall>j < length (planned_calls d n ?req) + 1. faults j = None"
    using run(3) plan by simp
  from created_run(7)[OF create_order_ok[OF hdr valid nf]]
  show "durable (final (create_order faults ?req (start d n))) =
        durable (final (create_order faults req (start d n)))"
    using f run(7) by (simp add: new_order_def total reprice_irrelevant(4) o_def)
qed

text \<open>
  C1, amended, at the example of the specification: product 7 costs 10, the client submits
  price 1 and quantity 3; the row holds 10 and the item adds 30 to the total of 35, which
  no step rounds.
\<close>

theorem persisted_price_is_store_price_witness:
  "order_items (durable (final (create_order no_faults (alice [widget, gadget]) (start shop 1)))) =
     [\<lparr>oi_order_id = 1, oi_product_id = Fin 7, oi_quantity = Fin 3, oi_price_at_order = 10,
       oi_product_name = ''Widget'', oi_image_url = Some ''w.png''\<rparr>,
      \<lparr>oi_order_id = 1, oi_product_id = Fin 9, oi_quantity = Fin 2, oi_price_at_order = 5 / 2,
       oi_product_name = ''Gadget'', oi_image_url = None\<rparr>] \<and>
   unrounded shop 0 [widget, gadget] \<and>
   map total_price
     (orders (durable (final (create_order no_faults (alice [widget, gadget]) (start shop 1))))) =
     [Fin 35]"
proof -
  have hdr: "header_error (alice [widget, gadget]) = None"
    by (simp add: header_error_def alice_def trim_def js_space_def)
  have valid: "\<forall>it \<in> set (arr_of (items (alice [widget, gadget]))).
      \<not> item_invalid it \<and> known shop it"
    by (simp add: alice_def widget_def gadget_def item_invalid_def known_dom shop_def
          falsy_num_def le_zero_def example_numbers)
  have nf: "\<forall>j < length (planned_calls shop 1 (alice [widget, gadget])) + 1. no_faults j = None"
    by (simp add: no_faults_def)
  have exact: "unrounded shop 0 [widget, gadget]"
    by (simp add: exact_def authoritative_price_def find_price_def shop_def widget_def
          gadget_def example_numbers)
  then have "unrounded shop 0 (arr_of (items (alice [widget, gadget])))"
    by (simp add: alice_def)
  with persisted_price_is_store_price[OF create_order_ok[OF hdr valid nf]] exact
  show ?thesis
    by (simp add: alice_def widget_def gadget_def shop_def authoritative_price_def
          find_price_def image_or_null_def example_numbers)
qed

subsection \<open>C2\<close>

text \<open>
  C2: in every run that acquired a connection and did not create the order (a line item
  names no product, a line item fails the check inside the loop, or a store call throws;
  in particular every run that opened a transaction and did not commit it),
  \<^verbatim>\<open>connection.rollback()\<close> is called after the last call of the \<^verbatim>\<open>try\<close> block and before
  any response, a response is sent only after the rollback has returned and closed the
  transaction, and the run persists no \<^verbatim>\<open>orders\<close> row and no \<^verbatim>\<open>order_items\<close> row.
\<close>

theorem failed_run_is_rolled_back:
  assumes hdr: "header_error req = None" and conn: "faults 0 = None"
    and notc: "\<forall>b. response (create_order faults req (start d n)) \<noteq> Some (201, b)"
  shows "orders (durable (final (create_order faults req (start d n)))) = orders d \<and>
         order_items (durable (final (create_order faults req (start d n)))) = order_items d \<and>
         (\<exists>k. 0 < k \<and> k \<le> length (planned_calls d n req) \<and>
            trace (final (create_order faults req (start d n))) =
              Call GetConnection # map Call (take k (planned_calls d n req)) @
              Call Rollback #
              (case response (create_order faults req (start d n)) of
                 None \<Rightarrow> [] | Some (st, bd) \<Rightarrow> [Respond st bd]) @
              [Call Release]) \<and>
         (response (create_order faults req (start d n)) \<noteq> None \<longrightarrow>
            txn (final (create_order faults req (start d n))) = None)"
  using hdr
proof (cases rule: create_order_cases[of req faults d n])
  case (no_connection e)
  with conn show ?thesis by simp
next
  case created
  with notc show ?thesis by simp
next
  case (rolled_back k e)
  then show ?thesis by (intro conjI exI[of _ k]) simp_all
next
  case (rollback_failed k e m)
  then show ?thesis by (intro conjI exI[of _ k]) simp_all
qed

text \<open>C2 at a request whose second item names no product.\<close>

theorem failed_run_is_rolled_back_witness:
  "orders (durable (final (create_order no_faults
      (alice [widget, gadget\<lparr>product_id := Val 99\<rparr>]) (start shop 1)))) = [] \<and>
   order_items (durable (final (create_order no_faults
      (alice [widget, gadget\<lparr>product_id := Val 99\<rparr>]) (start shop 1)))) = [] \<and>
   txn (final (create_order no_faults
      (alice [widget, gadget\<lparr>product_id := Val 99\<rparr>]) (start shop 1))) = None \<and>
   trace (final (create_order no_faults
      (alice [widget, gadget\<lparr>product_id := Val 99\<rparr>]) (start shop 1))) =
     [Call GetConnection, Call BeginTransaction, Call (SelectPrice (Fin 7)),
      Call (SelectPrice (Fin 99)),
      Call Rollback,
      Respond 500 (Message [Chars ''Gagal membuat pesanan: '', Chars ''Produk dengan ID '',
                             Number (Fin 99), Chars '' tidak ditemukan.'']),
      Call Release]"
proof -
  let ?req = "alice [widget, gadget\<lparr>product_id := Val 99\<rparr>]"
  let ?r = "create_order no_faults ?req (start shop 1)"
  have hdr: "header_error ?req = None" by (simp add: run_defs)
  have conn: "no_faults 0 = None" by (simp add: no_faults_def)
  have resp: "response ?r =
      Some (500, Message [Chars ''Gagal membuat pesanan: '', Chars ''Produk dengan ID '',
                          Number (Fin 99), Chars '' tidak ditemukan.''])"
    by (simp add: run_defs)
  then have notc: "\<forall>b. response ?r \<noteq> Some (201, b)" by simp
  have tr: "trace (final ?r) =
     [Call GetConnection, Call BeginTransaction, Call (SelectPrice (Fin 7)),
      Call (SelectPrice (Fin 99)),
      Call Rollback,
      Respond 500 (Message [Chars ''Gagal membuat pesanan: '', Chars ''Produk dengan ID '',
                             Number (Fin 99), Chars '' tidak ditemukan.'']),
      Call Release]"
    by (simp add: run_defs)
  from failed_run_is_rolled_back[where faults = no_faults, OF hdr conn notc] resp tr
  show ?thesis by (simp add: shop_def)
qed

subsection \<open>C3\<close>

text \<open>
  C3 as stated fails in its part on the order total: the sum is computed in double
  precision. Two line items of quantity 1, for products at 1/10 and at 1/5, create one
  order and two item rows, and the persisted total is 5404319552844596 / 2^54
  (\<^verbatim>\<open>0.30000000000000004\<close>), while the sum of quantity times price is 3/10, and the
  double nearest to 3/10 is another one.
\<close>

theorem sum_of_prices_is_rounded:
  "response (create_order no_faults (alice [candy, gum]) (start kiosk 1)) =
     Some (201, Created 1 (Val ''c1'') (Val ''Alice'') (Fin (5404319552844596 / 2 ^ 54))
                  ''completed'' ''Pesanan berhasil dibuat.'') \<and>
   map total_price
     (orders (durable (final (create_order no_faults (alice [candy, gum]) (start kiosk 1))))) =
     [Fin (5404319552844596 / 2 ^ 54)] \<and>
   length (order_items (durable (final (create_order no_faults (alice [candy, gum])
     (start kiosk 1))))) = 2 \<and>
   quantity candy = Val 1 \<and> quantity gum = Val 1 \<and>
   1 * authoritative_price kiosk candy + 1 * authoritative_price kiosk gum = 3 / 10 \<and>
   Fin (5404319552844596 / 2 ^ 54) \<noteq> Fin (3 / 10) \<and>
   Fin (5404319552844596 / 2 ^ 54) \<noteq> to_double (3 / 10)"
  by (simp add: run_defs number_defs authoritative_price_def)

text \<open>
  C3, amended: a request that passes the early checks, whose \<open>N\<close> line items all pass the
  check of the loop and name products of the store, is answered 201 when none of its
  \<open>2N + 4\<close> store calls throws; and every run answered 201 has added exactly one row to
  \<^verbatim>\<open>orders\<close>, with the generated id, and exactly \<open>N\<close> rows to \<^verbatim>\<open>order_items\<close>, all carrying
  that id. The \<^verbatim>\<open>total_price\<close> of the order row, which is also the total of the response,
  is the result of adding to 0, item after item and in double precision, the
  double-precision product of the store's price and the quantity. It is the sum over the
  items of quantity times the store's price when the prices and the quantities are whole
  numbers from 0 to \<open>2 ^ 53 - 1\<close> and that sum is below \<open>2 ^ 53\<close>.
\<close>

theorem valid_order_creates_one_order_and_n_items:
  "(\<not> no_items req \<and> \<not> blank (customerIdentifier req) \<and> \<not> blank (customerName req) \<and>
    (\<forall>it \<in> set (arr_of (items req)). \<not> item_invalid it \<and> known d it) \<and>
    (\<forall>j < 2 * length (arr_of (items req)) + 4. faults j = None) \<longrightarrow>
      (\<exists>b. response (create_order faults req (start d n)) = Some (201, b))) \<and>
   (\<forall>b. response (create_order faults req (start d n)) = Some (201, b) \<longrightarrow>
      (\<exists>row rows.
         orders (durable (final (create_order faults req (start d n)))) = orders d @ [row] \<and>
         order_id row = n \<and>
         total_price row =
           foldl (\<lambda>t it. dadd t (dmul (to_double (authoritative_price d it))
                                     (to_number (quantity it))))
             (Fin 0) (arr_of (items req)) \<and>
         (whole_amounts d (arr_of (items req)) \<and>
          sum_list (map (\<lambda>it. (case quantity it of Val q \<Rightarrow> q | _ \<Rightarrow> 0) * authoritative_price d it)
            (arr_of (items req))) < 2 ^ 53 \<longrightarrow>
            total_price row =
              Fin (sum_list (map (\<lambda>it. (case quantity it of Val q \<Rightarrow> q | _ \<Rightarrow> 0) *
                                      authoritative_price d it)
                     (arr_of (items req))))) \<and>
         order_items (durable (final (create_order faults req (start d n)))) =
           order_items d @ rows \<and>
         length rows = length (arr_of (items req)) \<and>
         list_all (\<lambda>r. oi_order_id r = n) rows \<and>
         list_all (known d) (arr_of (items req)) \<and>
         b = Created n (customerIdentifier req) (customerName req) (total_price row)
               ''completed'' ''Pesanan berhasil dibuat.''))"
proof (intro conjI allI impI)
  assume a: "\<not> no_items req \<and> \<not> blank (customerIdentifier req) \<and> \<not> blank (customerName req) \<and>
    (\<forall>it \<in> set (arr_of (items req)). \<not> item_invalid it \<and> known d it) \<and>
    (\<forall>j < 2 * length (arr_of (items req)) + 4. faults j = None)"
  then have hdr: "header_error req = None" by (simp add: header_error_None_iff)
  have nf: "\<forall>j < length (planned_calls d n req) + 1. faults j = None"
    using a by (simp add: length_planned_calls)
  from create_order_ok[OF hdr _ nf] a
  show "\<exists>b. response (create_order faults req (start d n)) = Some (201, b)" by blast
next
  fix b assume s: "response (create_order faults req (start d n)) = Some (201, b)"
  note run = created_run[OF s]
  let ?its = "arr_of (items req)"
  let ?rows = "map (\<lambda>it. item_row n (reconciled d it)) ?its"
  let ?sum = "sum_list (map (\<lambda>it. (case quantity it of Val q \<Rightarrow> q | _ \<Rightarrow> 0) *
                               authoritative_price d it) ?its)"
  have sum: "?sum = exact_total d ?its" by (simp add: exact_total_def mult.commute)
  have "orders (durable (final (create_order faults req (start d n)))) =
          orders d @ [new_order d n req]"
    using run(7) by simp
  moreover have "order_id (new_order d n req) = n" by (simp add: new_order_def)
  moreover have "total_price (new_order d n req) =
      foldl (\<lambda>t it. dadd t (dmul (to_double (authoritative_price d it))
                                (to_number (quantity it)))) (Fin 0) ?its"
    by (simp add: new_order_def order_total_def running_total_def contribution_def)
  moreover have "whole_amounts d ?its \<and> ?sum < 2 ^ 53 \<longrightarrow>
      total_price (new_order d n req) = Fin ?sum"
    unfolding sum using whole_total[of d ?its] by (simp add: new_order_def)
  moreover have "order_items (durable (final (create_order faults req (start d n)))) =
      order_items d @ ?rows"
    using run(7) by simp
  moreover have "length ?rows = length ?its" by simp
  moreover have "list_all (\<lambda>r. oi_order_id r = n) ?rows"
    by (simp add: list_all_iff item_row_def)
  moreover have "list_all (known d) ?its"
    using run(4) by (simp add: list_all_iff)
  moreover have "b = Created n (customerIdentifier req) (customerName req)
      (total_price (new_order d n req)) ''completed'' ''Pesanan berhasil dibuat.''"
    using run(2) by (simp add: created_body_def new_order_def)
  ultimately show "\<exists>row rows.
         orders (durable (final (create_order faults req (start d n)))) = orders d @ [row] \<and>
         order_id row = n \<and>
         total_price row =
           foldl (\<lambda>t it. dadd t (dmul (to_double (authoritative_price d it))
                                     (to_number (quantity it))))
             (Fin 0) (arr_of (items req)) \<and>
         (whole_amounts d (arr_of (items req)) \<and>
          sum_list (map (\<lambda>it. (case quantity it of Val q \<Rightarrow> q | _ \<Rightarrow> 0) * authoritative_price d it)
            (arr_of (items req))) < 2 ^ 53 \<longrightarrow>
            total_price row =
              Fin (sum_list (map (\<lambda>it. (case quantity it of Val q \<Rightarrow> q | _ \<Rightarrow> 0) *
                                      authoritative_price d it)
                     (arr_of (items req))))) \<and>
         order_items (durable (final (create_order faults req (start d n)))) =
           order_items d @ rows \<and>
         length rows = length (arr_of (items req)) \<and>
         list_all (\<lambda>r. oi_order_id r = n) rows \<and>
         list_all (known d) (arr_of (items req)) \<and>
         b = Created n (customerIdentifier req) (customerName req) (total_price row)
               ''completed'' ''Pesanan berhasil dibuat.''"
    by blast
qed

text \<open>
  C3, amended, at an order of three and of two of product 7, which costs 10: one order
  with total 50, two item rows.
\<close>

theorem valid_order_creates_one_order_and_n_items_witness:
  "response (create_order no_faults (alice [widget, widget\<lparr>quantity := Val 2\<rparr>]) (start shop 1)) =
     Some (201, Created 1 (Val ''c1'') (Val ''Alice'') (Fin 50) ''completed''
                  ''Pesanan berhasil dibuat.'') \<and>
   length (orders (durable (final (create_order no_faults
     (alice [widget, widget\<lparr>quantity := Val 2\<rparr>]) (start shop 1))))) = 1 \<and>
   map total_price (orders (durable (final (create_order no_faults
     (alice [widget, widget\<lparr>quantity := Val 2\<rparr>]) (start shop 1))))) = [Fin 50] \<and>
   length (order_items (durable (final (create_order no_faults
     (alice [widget, widget\<lparr>quantity := Val 2\<rparr>]) (start shop 1))))) = 2"
proof -
  let ?req = "alice [widget, widget\<lparr>quantity := Val 2\<rparr>]"
  let ?r = "create_order no_faults ?req (start shop 1)"
  let ?sum = "sum_list (map (\<lambda>it. (case quantity it of Val q \<Rightarrow> q | _ \<Rightarrow> 0) *
                               authoritative_price shop it) (arr_of (items ?req)))"
  note t = valid_order_creates_one_order_and_n_items[where req = ?req and d = shop
      and faults = no_faults and n = 1]
  have pre: "\<not> no_items ?req \<and> \<not> blank (customerIdentifier ?req) \<and>
    \<not> blank (customerName ?req) \<and>
    (\<forall>it \<in> set (arr_of (items ?req)). \<not> item_invalid it \<and> known shop it) \<and>
    (\<forall>j < 2 * length (arr_of (items ?req)) + 4. no_faults j = None)"
    by (simp add: alice_def widget_def item_invalid_def known_dom shop_def
          no_faults_def no_items_def blank_def js_space_def falsy_num_def le_zero_def
          example_numbers)
  have sum: "?sum = 50"
    by (simp add: alice_def widget_def shop_def authoritative_price_def find_price_def
          example_numbers)
  have whole: "whole_amounts shop (arr_of (items ?req)) \<and> ?sum < 2 ^ 53"
    unfolding sum
    by (simp add: whole_amounts_def whole_def alice_def widget_def shop_def
          authoritative_price_def find_price_def example_numbers)
  from pre t obtain b where b: "response ?r = Some (201, b)" by blast
  with t obtain row rows where r:
    "orders (durable (final ?r)) = orders shop @ [row]"
    "whole_amounts shop (arr_of (items ?req)) \<and> ?sum < 2 ^ 53 \<longrightarrow> total_price row = Fin ?sum"
    "order_items (durable (final ?r)) = order_items shop @ rows"
    "length rows = length (arr_of (items ?req))"
    "b = Created 1 (customerIdentifier ?req) (customerName ?req) (total_price row)
           ''completed'' ''Pesanan berhasil dibuat.''"
    by blast
  have tot: "total_price row = Fin 50" using r(2) whole sum by simp
  show ?thesis
    using b r(1,3,4,5) tot by (simp add: alice_def shop_def)
qed

subsection \<open>C4\<close>

text \<open>
  C4 as stated fails: the claim gives status 400 to a product that is not found during
  reconciliation and to a validation failure of a line item. The handler answers both
  with 500, since both are thrown inside the \<^verbatim>\<open>try\<close> block and its \<^verbatim>\<open>catch\<close> answers every
  error alike.
\<close>

theorem not_found_and_invalid_item_answer_500:
  "\<not> item_invalid (widget\<lparr>product_id := Val 99\<rparr>) \<and>
   \<not> known shop (widget\<lparr>product_id := Val 99\<rparr>) \<and>
   response (create_order no_faults (alice [widget\<lparr>product_id := Val 99\<rparr>]) (start shop 1)) =
     Some (500, Message [Chars ''Gagal membuat pesanan: '', Chars ''Produk dengan ID '',
                         Number (Fin 99), Chars '' tidak ditemukan.'']) \<and>
   item_invalid (widget\<lparr>name := Val ''''\<rparr>) \<and>
   response (create_order no_faults (alice [widget\<lparr>name := Val ''''\<rparr>]) (start shop 1)) =
     Some (500, Message [Chars ''Gagal membuat pesanan: '', Chars ''Detail item pesanan tidak valid: product_id, quantity, name, atau price_at_order kurang.''])"
proof -
  have hdr: "\<And>x. header_error (alice [x]) = None"
    by (simp add: header_error_def alice_def trim_def js_space_def)
  have split: "\<And>x. arr_of (items (alice [x])) = [] @ x # []" by (simp add: alice_def)
  have pre: "\<forall>x \<in> set []. \<not> item_invalid x \<and> known shop x" by simp
  have ok: "\<not> item_invalid (widget\<lparr>product_id := Val 99\<rparr>)"
    by (simp add: widget_def item_invalid_def falsy_num_def le_zero_def example_numbers)
  have unknown: "\<not> known shop (widget\<lparr>product_id := Val 99\<rparr>)"
    by (simp add: widget_def known_dom shop_def example_numbers)
  have bad: "item_invalid (widget\<lparr>name := Val ''''\<rparr>)"
    by (simp add: widget_def item_invalid_def)
  have nf: "\<And>k. \<forall>j < k. no_faults j = None" by (simp add: no_faults_def)
  from create_order_item_fails(2)[OF hdr split pre ok unknown nf]
  have "response (create_order no_faults (alice [widget\<lparr>product_id := Val 99\<rparr>]) (start shop 1)) =
     Some (500, Message [Chars ''Gagal membuat pesanan: '', Chars ''Produk dengan ID '',
                         Number (Fin 99), Chars '' tidak ditemukan.''])"
    by (simp add: failure_message_def not_found_message_def widget_def example_numbers)
  moreover from create_order_item_fails(1)[OF hdr split pre bad nf]
  have "response (create_order no_faults (alice [widget\<lparr>name := Val ''''\<rparr>]) (start shop 1)) =
     Some (500, Message [Chars ''Gagal membuat pesanan: '', Chars ''Detail item pesanan tidak valid: product_id, quantity, name, atau price_at_order kurang.''])"
    by (simp add: failure_message_def invalid_item_message_def)
  ultimately show ?thesis using ok unknown bad by simp
qed

text \<open>
  C4, amended: a request that fails one of the three early checks (no items, blank
  \<^verbatim>\<open>customerIdentifier\<close>, blank \<^verbatim>\<open>customerName\<close>) is answered 400 with the message of that
  check. Every other failure is raised inside the \<^verbatim>\<open>try\<close> block and, when the handler
  returns normally, is answered 500 with the message \<^verbatim>\<open>Gagal membuat pesanan: \<close> followed
  by the message of the error that was thrown, which is the message of the store call that
  threw or the message for the first line item that stops the loop. In the other
  direction: the first line item that fails the check of the loop is answered 500 with the
  message for invalid item details; the first line item that names no product is answered
  500 with the message that carries its \<^verbatim>\<open>product_id\<close>; and when call \<open>k\<close> of the run is the
  first store call to throw, before the loop has stopped at a line item, the answer is 500
  with the message of that store error, provided the rollback returns. What happens when
  \<^verbatim>\<open>connection.rollback()\<close> itself throws is left open here.
\<close>

theorem failure_status:
  "(\<forall>m. header_error req = Some m \<longrightarrow>
      response (create_order faults req (start d n)) = Some (400, Message m) \<and>
      uncaught (create_order faults req (start d n)) = None) \<and>
   (header_error req = None \<and> uncaught (create_order faults req (start d n)) = None \<longrightarrow>
      (\<exists>b. response (create_order faults req (start d n)) = Some (201, b)) \<or>
      (\<exists>e. response (create_order faults req (start d n)) =
             Some (500, Message (Chars ''Gagal membuat pesanan: '' # e)) \<and>
           ((\<exists>m. faults 0 = Some m \<and> e = [Chars m]) \<or>
            (\<exists>k. 0 < k \<and> faults 0 = None \<and>
                 failed_by faults 1 d (arr_of (items req)) k (k - 1) e)))) \<and>
   (header_error req = None \<and> arr_of (items req) = pre @ it # post \<and>
    (\<forall>x \<in> set pre. \<not> item_invalid x \<and> known d x) \<and> item_invalid it \<and>
    (\<forall>j < length pre + 3. faults j = None) \<longrightarrow>
      response (create_order faults req (start d n)) =
        Some (500, Message (Chars ''Gagal membuat pesanan: '' # invalid_item_message)) \<and>
      uncaught (create_order faults req (start d n)) = None) \<and>
   (header_error req = None \<and> arr_of (items req) = pre @ it # post \<and>
    (\<forall>x \<in> set pre. \<not> item_invalid x \<and> known d x) \<and> \<not> item_invalid it \<and> \<not> known d it \<and>
    (\<forall>j < length pre + 4. faults j = None) \<longrightarrow>
      response (create_order faults req (start d n)) =
        Some (500, Message [Chars ''Gagal membuat pesanan: '', Chars ''Produk dengan ID '',
                            Number (to_number (product_id it)),
                            Chars '' tidak ditemukan.'']) \<and>
      uncaught (create_order faults req (start d n)) = None) \<and>
   (\<forall>k m. header_error req = None \<and> faults k = Some m \<and> (\<forall>j < k. faults j = None) \<and>
      (case first_bad d (arr_of (items req)) of
         None \<Rightarrow> k \<le> 2 * length (arr_of (items req)) + 3
       | Some (c, e) \<Rightarrow> k \<le> c + 1) \<and>
      (k = 0 \<or> faults (Suc k) = None) \<longrightarrow>
      response (create_order faults req (start d n)) =
        Some (500, Message [Chars ''Gagal membuat pesanan: '', Chars m]) \<and>
      uncaught (create_order faults req (start d n)) = None)"
proof (intro conjI allI impI)
  fix m assume "header_error req = Some m"
  then show "response (create_order faults req (start d n)) = Some (400, Message m)"
    and "uncaught (create_order faults req (start d n)) = None"
    by (simp_all add: create_order_header)
next
  assume a: "header_error req = None \<and> uncaught (create_order faults req (start d n)) = None"
  then have hdr: "header_error req = None" by simp
  from hdr show "(\<exists>b. response (create_order faults req (start d n)) = Some (201, b)) \<or>
      (\<exists>e. response (create_order faults req (start d n)) =
             Some (500, Message (Chars ''Gagal membuat pesanan: '' # e)) \<and>
           ((\<exists>m. faults 0 = Some m \<and> e = [Chars m]) \<or>
            (\<exists>k. 0 < k \<and> faults 0 = None \<and>
                 failed_by faults 1 d (arr_of (items req)) k (k - 1) e)))"
  proof (cases rule: create_order_cases[of req faults d n])
    case (no_connection m)
    then have "response (create_order faults req (start d n)) =
        Some (500, Message (Chars ''Gagal membuat pesanan: '' # [Chars m])) \<and>
        faults 0 = Some m"
      by (simp add: failure_message_def)
    then show ?thesis by blast
  next
    case created
    then show ?thesis by blast
  next
    case (rolled_back k e)
    then have "response (create_order faults req (start d n)) =
        Some (500, Message (Chars ''Gagal membuat pesanan: '' # e)) \<and>
        0 < k \<and> faults 0 = None \<and> failed_by faults 1 d (arr_of (items req)) k (k - 1) e"
      by (simp add: failure_message_def)
    then show ?thesis by blast
  next
    case (rollback_failed k e m)
    with a show ?thesis by simp
  qed
next
  assume a: "header_error req = None \<and> arr_of (items req) = pre @ it # post \<and>
    (\<forall>x \<in> set pre. \<not> item_invalid x \<and> known d x) \<and> item_invalid it \<and>
    (\<forall>j < length pre + 3. faults j = None)"
  from a have h: "header_error req = None" "arr_of (items req) = pre @ it # post"
    "\<forall>x \<in> set pre. \<not> item_invalid x \<and> known d x" "item_invalid it"
    "\<forall>j < length pre + 3. faults j = None"
    by simp_all
  from create_order_item_fails(1)[OF h]
  have "response (create_order faults req (start d n)) =
        Some (500, Message (Chars ''Gagal membuat pesanan: '' # invalid_item_message)) \<and>
      uncaught (create_order faults req (start d n)) = None"
    by (simp add: failure_message_def)
  then show "response (create_order faults req (start d n)) =
        Some (500, Message (Chars ''Gagal membuat pesanan: '' # invalid_item_message))"
    and "uncaught (create_order faults req (start d n)) = None"
    by simp_all
next
  assume a: "header_error req = None \<and> arr_of (items req) = pre @ it # post \<and>
    (\<forall>x \<in> set pre. \<not> item_invalid x \<and> known d x) \<and> \<not> item_invalid it \<and> \<not> known d it \<and>
    (\<forall>j < length pre + 4. faults j = None)"
  from a have h: "header_error req = None" "arr_of (items req) = pre @ it # post"
    "\<forall>x \<in> set pre. \<not> item_invalid x \<and> known d x" "\<not> item_invalid it" "\<not> known d it"
    "\<forall>j < length pre + 4. faults j = None"
    by simp_all
  from create_order_item_fails(2)[OF h]
  have "response (create_order faults req (start d n)) =
        Some (500, Message [Chars ''Gagal membuat pesanan: '', Chars ''Produk dengan ID '',
                            Number (to_number (product_id it)),
                            Chars '' tidak ditemukan.'']) \<and>
      uncaught (create_order faults req (start d n)) = None"
    by (simp add: failure_message_def not_found_message_def)
  then show "response (create_order faults req (start d n)) =
        Some (500, Message [Chars ''Gagal membuat pesanan: '', Chars ''Produk dengan ID '',
                            Number (to_number (product_id it)),
                            Chars '' tidak ditemukan.''])"
    and "uncaught (create_order faults req (start d n)) = None"
    by simp_all
next
  fix k m
  assume a: "header_error req = None \<and> faults k = Some m \<and> (\<forall>j < k. faults j = None) \<and>
      (case first_bad d (arr_of (items req)) of
         None \<Rightarrow> k \<le> 2 * length (arr_of (items req)) + 3
       | Some (c, e) \<Rightarrow> k \<le> c + 1) \<and>
      (k = 0 \<or> faults (Suc k) = None)"
  from a have h: "header_error req = None" "faults k = Some m" "\<forall>j < k. faults j = None"
    "case first_bad d (arr_of (items req)) of
       None \<Rightarrow> k \<le> 2 * length (arr_of (items req)) + 3
     | Some (c, e) \<Rightarrow> k \<le> c + 1"
    "k = 0 \<or> faults (Suc k) = None"
    by simp_all
  from create_order_store_error[OF h]
  have "response (create_order faults req (start d n)) =
        Some (500, Message [Chars ''Gagal membuat pesanan: '', Chars m]) \<and>
      uncaught (create_order faults req (start d n)) = None"
    by (simp add: failure_message_def)
  then show "response (create_order faults req (start d n)) =
        Some (500, Message [Chars ''Gagal membuat pesanan: '', Chars m])"
    and "uncaught (create_order faults req (start d n)) = None"
    by simp_all
qed

text \<open>
  C4, amended, at an empty order (400), a negative quantity (500), an unknown product
  (500) and a store error at the second lookup (500).
\<close>

theorem failure_status_witness:
  "response (create_order no_faults (alice []) (start shop 1)) =
     Some (400, Message [Chars ''Pesanan harus memiliki item.'']) \<and>
   response (create_order no_faults (alice [gadget, widget\<lparr>quantity := Val (- 2)\<rparr>])
     (start shop 1)) =
     Some (500, Message [Chars ''Gagal membuat pesanan: '', Chars ''Detail item pesanan tidak valid: product_id, quantity, name, atau price_at_order kurang.'']) \<and>
   response (create_order no_faults (alice [gadget, widget\<lparr>product_id := Val 99\<rparr>])
     (start shop 1)) =
     Some (500, Message [Chars ''Gagal membuat pesanan: '', Chars ''Produk dengan ID '',
                         Number (Fin 99), Chars '' tidak ditemukan.'']) \<and>
   response (create_order (fault_at 3 ''ER_LOCK_DEADLOCK'') (alice [widget, gadget])
     (start shop 1)) =
     Some (500, Message [Chars ''Gagal membuat pesanan: '', Chars ''ER_LOCK_DEADLOCK''])"
proof -
  have hdr: "\<And>xs. xs \<noteq> [] \<Longrightarrow> header_error (alice xs) = None"
    by (simp add: header_error_def alice_def trim_def js_space_def)
  have h0: "header_error (alice []) = Some [Chars ''Pesanan harus memiliki item.'']"
    by (simp add: header_error_def alice_def)
  have pre: "\<forall>x \<in> set [gadget]. \<not> item_invalid x \<and> known shop x"
    by (simp add: gadget_def item_invalid_def known_dom shop_def falsy_num_def le_zero_def
          example_numbers)
  have nf: "\<And>k. \<forall>j < k. no_faults j = None" by (simp add: no_faults_def)
  have c1: "response (create_order no_faults (alice []) (start shop 1)) =
     Some (400, Message [Chars ''Pesanan harus memiliki item.''])"
    using failure_status[where req = "alice []" and faults = no_faults and d = shop and n = 1]
      h0 by blast
  let ?bad = "widget\<lparr>quantity := Val (- 2)\<rparr>"
  have "header_error (alice [gadget, ?bad]) = None \<and>
    arr_of (items (alice [gadget, ?bad])) = [gadget] @ ?bad # [] \<and>
    (\<forall>x \<in> set [gadget]. \<not> item_invalid x \<and> known shop x) \<and> item_invalid ?bad \<and>
    (\<forall>j < length [gadget] + 3. no_faults j = None)"
    using pre nf
    by (simp add: hdr)
       (simp add: alice_def widget_def item_invalid_def falsy_num_def le_zero_def
          example_numbers)
  then have c2: "response (create_order no_faults (alice [gadget, ?bad]) (start shop 1)) =
     Some (500, Message (Chars ''Gagal membuat pesanan: '' # invalid_item_message))"
    using failure_status[where req = "alice [gadget, ?bad]" and faults = no_faults
        and d = shop and n = 1 and pre = "[gadget]" and it = ?bad and post = "[]"]
    by blast
  let ?lost = "widget\<lparr>product_id := Val 99\<rparr>"
  have "header_error (alice [gadget, ?lost]) = None \<and>
    arr_of (items (alice [gadget, ?lost])) = [gadget] @ ?lost # [] \<and>
    (\<forall>x \<in> set [gadget]. \<not> item_invalid x \<and> known shop x) \<and>
    \<not> item_invalid ?lost \<and> \<not> known shop ?lost \<and>
    (\<forall>j < length [gadget] + 4. no_faults j = None)"
    using pre nf
    by (simp add: hdr)
       (simp add: alice_def widget_def item_invalid_def known_dom shop_def falsy_num_def
          le_zero_def example_numbers)
  then have c3: "response (create_order no_faults (alice [gadget, ?lost]) (start shop 1)) =
     Some (500, Message [Chars ''Gagal membuat pesanan: '', Chars ''Produk dengan ID '',
                         Number (to_number (product_id ?lost)),
                         Chars '' tidak ditemukan.''])"
    using failure_status[where req = "alice [gadget, ?lost]" and faults = no_faults
        and d = shop and n = 1 and pre = "[gadget]" and it = ?lost and post = "[]"]
    by blast
  let ?dead = "fault_at 3 ''ER_LOCK_DEADLOCK''"
  have "header_error (alice [widget, gadget]) = None \<and> ?dead 3 = Some ''ER_LOCK_DEADLOCK'' \<and>
    (\<forall>j < 3. ?dead j = None) \<and>
    (case first_bad shop (arr_of (items (alice [widget, gadget]))) of
       None \<Rightarrow> 3 \<le> 2 * length (arr_of (items (alice [widget, gadget]))) + 3
     | Some (c, e) \<Rightarrow> 3 \<le> c + 1) \<and>
    (3 = (0::nat) \<or> ?dead (Suc 3) = None)"
    by (simp add: hdr)
       (simp add: alice_def widget_def gadget_def item_invalid_def known_dom shop_def
          falsy_num_def le_zero_def example_numbers fault_at_def)
  then have c4: "response (create_order ?dead (alice [widget, gadget]) (start shop 1)) =
     Some (500, Message [Chars ''Gagal membuat pesanan: '', Chars ''ER_LOCK_DEADLOCK''])"
    using failure_status[where req = "alice [widget, gadget]" and faults = ?dead
        and d = shop and n = 1]
    by blast
  from c1 c2 c3 c4 show ?thesis
    by (simp add: widget_def invalid_item_message_def example_numbers)
qed

subsection \<open>C5\<close>

text \<open>
  C5 as stated fails: the check of a line item is made inside the loop of the \<^verbatim>\<open>try\<close>
  block. For a request whose second item has no quantity, a connection is acquired, a
  transaction is begun and the price of the first item is queried before the failure is
  reported.
\<close>

theorem item_check_after_store_calls:
  "header_error (alice [gadget, widget\<lparr>quantity := Undefined\<rparr>]) = None \<and>
   item_invalid (widget\<lparr>quantity := Undefined\<rparr>) \<and>
   trace (final (create_order no_faults (alice [gadget, widget\<lparr>quantity := Undefined\<rparr>])
     (start shop 1))) =
     [Call GetConnection, Call BeginTransaction, Call (SelectPrice (Fin 9)), Call Rollback,
      Respond 500 (Message [Chars ''Gagal membuat pesanan: '', Chars ''Detail item pesanan tidak valid: product_id, quantity, name, atau price_at_order kurang.'']),
      Call Release]"
  by (simp add: run_defs)

text \<open>
  C5, amended: only the three early checks (items present and not empty,
  \<^verbatim>\<open>customerIdentifier\<close> not blank, \<^verbatim>\<open>customerName\<close> not blank) are evaluated before any store
  access: when one of them fails, the response is the only event of the run. The checks of
  a line item (\<^verbatim>\<open>product_id\<close>, \<^verbatim>\<open>quantity\<close>, \<^verbatim>\<open>name\<close>, \<^verbatim>\<open>price_at_order\<close> present and
  \<^verbatim>\<open>quantity > 0\<close>) are evaluated inside the transaction, item by item, each before the
  price lookup of that item and after the lookups of the items before it: the failure of
  the first invalid item is reported after the connection was acquired, the transaction
  begun and the prices of the preceding items queried.
\<close>

theorem checks_and_store_access:
  "(header_error req \<noteq> None \<longleftrightarrow>
      no_items req \<or> blank (customerIdentifier req) \<or> blank (customerName req)) \<and>
   (\<forall>m. header_error req = Some m \<longrightarrow>
      trace (final (create_order faults req (start d n))) = [Respond 400 (Message m)]) \<and>
   (header_error req = None \<and> arr_of (items req) = pre @ it # post \<and>
    (\<forall>x \<in> set pre. \<not> item_invalid x \<and> known d x) \<and> item_invalid it \<and>
    (\<forall>j < length pre + 3. faults j = None) \<longrightarrow>
      trace (final (create_order faults req (start d n))) =
        Call GetConnection # Call BeginTransaction #
        map (\<lambda>x. Call (SelectPrice (to_number (product_id x)))) pre @
        [Call Rollback, Respond 500 (Message (failure_message invalid_item_message)),
         Call Release])"
proof (intro conjI allI impI)
  show "header_error req \<noteq> None \<longleftrightarrow>
      no_items req \<or> blank (customerIdentifier req) \<or> blank (customerName req)"
    by (simp add: header_error_None_iff)
next
  fix m assume "header_error req = Some m"
  then show "trace (final (create_order faults req (start d n))) = [Respond 400 (Message m)]"
    by (simp add: create_order_header respond_def start_def)
next
  assume a: "header_error req = None \<and> arr_of (items req) = pre @ it # post \<and>
    (\<forall>x \<in> set pre. \<not> item_invalid x \<and> known d x) \<and> item_invalid it \<and>
    (\<forall>j < length pre + 3. faults j = None)"
  then have h: "header_error req = None" "arr_of (items req) = pre @ it # post"
    "\<forall>x \<in> set pre. \<not> item_invalid x \<and> known d x" "item_invalid it"
    "\<forall>j < length pre + 3. faults j = None"
    by simp_all
  from create_order_item_fails(1)[OF h]
  show "trace (final (create_order faults req (start d n))) =
        Call GetConnection # Call BeginTransaction #
        map (\<lambda>x. Call (SelectPrice (to_number (product_id x)))) pre @
        [Call Rollback, Respond 500 (Message (failure_message invalid_item_message)),
         Call Release]"
    by (simp add: sel_def[abs_def] o_def)
qed

text \<open>C5, amended, at a \<^verbatim>\<open>null\<close> customer identifier and at an invalid third item.\<close>

theorem checks_and_store_access_witness:
  "trace (final (create_order no_faults (alice [widget]\<lparr>customerIdentifier := Null\<rparr>)
     (start shop 1))) =
     [Respond 400 (Message [Chars ''Identitas konsumen (customerIdentifier) wajib diisi.''])] \<and>
   trace (final (create_order no_faults (alice [widget, gadget, widget\<lparr>name := Null\<rparr>, gadget])
     (start shop 1))) =
     [Call GetConnection, Call BeginTransaction, Call (SelectPrice (Fin 7)), Call (SelectPrice (Fin 9)),
      Call Rollback, Respond 500 (Message (failure_message invalid_item_message)),
      Call Release]"
proof -
  let ?r1 = "alice [widget]\<lparr>customerIdentifier := Null\<rparr>"
  let ?bad = "widget\<lparr>name := Null\<rparr>"
  let ?r2 = "alice [widget, gadget, ?bad, gadget]"
  have h1: "header_error ?r1 = Some [Chars ''Identitas konsumen (customerIdentifier) wajib diisi.'']"
    by (simp add: header_error_def alice_def)
  have c1: "trace (final (create_order no_faults ?r1 (start shop 1))) =
     [Respond 400 (Message [Chars ''Identitas konsumen (customerIdentifier) wajib diisi.''])]"
    using checks_and_store_access[where req = ?r1 and faults = no_faults and d = shop and n = 1]
      h1 by blast
  have "header_error ?r2 = None \<and> arr_of (items ?r2) = [widget, gadget] @ ?bad # [gadget] \<and>
    (\<forall>x \<in> set [widget, gadget]. \<not> item_invalid x \<and> known shop x) \<and> item_invalid ?bad \<and>
    (\<forall>j < length [widget, gadget] + 3. no_faults j = None)"
    by (simp add: header_error_def alice_def trim_def js_space_def widget_def gadget_def
          item_invalid_def known_dom shop_def falsy_num_def le_zero_def
          example_numbers no_faults_def)
  then have "trace (final (create_order no_faults ?r2 (start shop 1))) =
        Call GetConnection # Call BeginTransaction #
        map (\<lambda>x. Call (SelectPrice (to_number (product_id x)))) [widget, gadget] @
        [Call Rollback, Respond 500 (Message (failure_message invalid_item_message)),
         Call Release]"
    using checks_and_store_access[where req = ?r2 and pre = "[widget, gadget]" and it = ?bad
        and post = "[gadget]" and d = shop and faults = no_faults and n = 1]
    by blast
  with c1 show ?thesis by (simp add: widget_def gadget_def example_numbers)
qed

subsection \<open>C6\<close>

text \<open>
  C6: a request with no items, or with a blank \<^verbatim>\<open>customerIdentifier\<close>, or with a blank
  \<^verbatim>\<open>customerName\<close> (absent, \<^verbatim>\<open>null\<close>, empty or white space only) is answered with status
  400 and a message; the response is the only event of the run: no connection is
  acquired, no transaction is opened, no store call is made, and the tables are unchanged.
\<close>

theorem header_failure_touches_nothing:
  assumes "no_items req \<or> blank (customerIdentifier req) \<or> blank (customerName req)"
  shows "\<exists>m. response (create_order faults req (start d n)) = Some (400, Message m) \<and>
             uncaught (create_order faults req (start d n)) = None \<and>
             trace (final (create_order faults req (start d n))) = [Respond 400 (Message m)] \<and>
             ncalls (final (create_order faults req (start d n))) = 0 \<and>
             txn (final (create_order faults req (start d n))) = None \<and>
             durable (final (create_order faults req (start d n))) = d"
proof -
  from assms have "header_error req \<noteq> None" by (simp add: header_error_None_iff)
  then obtain m where "header_error req = Some m" by blast
  then show ?thesis
    by (intro exI[of _ m]) (simp add: create_order_header respond_def start_def)
qed

text \<open>C6 at a customer name of a space and a tab.\<close>

theorem header_failure_touches_nothing_witness:
  "response (create_order no_faults \<lparr>items = Val [widget], customerIdentifier = Val ''c1'',
       customerName = Val [CHR '' '', CHR 0x09]\<rparr> (start shop 1)) =
     Some (400, Message [Chars ''Nama pembeli (customerName) wajib diisi.'']) \<and>
   trace (final (create_order no_faults \<lparr>items = Val [widget], customerIdentifier = Val ''c1'',
       customerName = Val [CHR '' '', CHR 0x09]\<rparr> (start shop 1))) =
     [Respond 400 (Message [Chars ''Nama pembeli (customerName) wajib diisi.''])] \<and>
   durable (final (create_order no_faults \<lparr>items = Val [widget], customerIdentifier = Val ''c1'',
       customerName = Val [CHR '' '', CHR 0x09]\<rparr> (start shop 1))) = shop"
proof -
  let ?req = "\<lparr>items = Val [widget], customerIdentifier = Val ''c1'',
       customerName = Val [CHR '' '', CHR 0x09]\<rparr>"
  have "no_items ?req \<or> blank (customerIdentifier ?req) \<or> blank (customerName ?req)"
    by (simp add: blank_def js_space_def)
  from header_failure_touches_nothing[OF this, of no_faults shop 1]
  obtain m where m: "response (create_order no_faults ?req (start shop 1)) = Some (400, Message m)"
    "trace (final (create_order no_faults ?req (start shop 1))) = [Respond 400 (Message m)]"
    "durable (final (create_order no_faults ?req (start shop 1))) = shop"
    by blast
  have "response (create_order no_faults ?req (start shop 1)) =
      Some (400, Message [Chars ''Nama pembeli (customerName) wajib diisi.''])"
    by (simp add: create_order_def header_error_def trim_def js_space_def)
  with m show ?thesis by simp
qed

subsection \<open>C7\<close>

text \<open>
  C7: in every run that acquired a connection, whatever the outcome (order created, line
  item rejected, product not found, store error, even a rollback that throws),
  \<^verbatim>\<open>connection.release()\<close> is the last event of the run, it occurs exactly once, and a
  commit or a rollback was called before it.
\<close>

theorem connection_released_once:
  assumes hdr: "header_error req = None" and conn: "faults 0 = None"
  shows "\<exists>pre. trace (final (create_order faults req (start d n))) = pre @ [Call Release] \<and>
           Call Release \<notin> set pre \<and>
           (Call Commit \<in> set pre \<or> Call Rollback \<in> set pre)"
  using hdr
proof (cases rule: create_order_cases[of req faults d n])
  case (no_connection e)
  with conn show ?thesis by simp
next
  case created
  let ?pre = "Call GetConnection # map Call (planned_calls d n req) @
                [Respond 201 (created_body d n req)]"
  have "Call Release \<notin> set ?pre" using planned_calls_kinds(2)[of d n req] by auto
  moreover have "Call Commit \<in> set ?pre" using planned_calls_kinds(4)[of d n req] by auto
  ultimately show ?thesis using created(5) by (intro exI[of _ ?pre]) simp
next
  case (rolled_back k e)
  let ?pre = "Call GetConnection # map Call (take k (planned_calls d n req)) @
                [Call Rollback, Respond 500 (Message (failure_message e))]"
  have "Release \<notin> set (take k (planned_calls d n req))"
    using planned_calls_kinds(2)[of d n req] by (auto dest: in_set_takeD)
  then have "Call Release \<notin> set ?pre" by auto
  then show ?thesis using rolled_back(8) by (intro exI[of _ ?pre]) simp
next
  case (rollback_failed k e m)
  let ?pre = "Call GetConnection # map Call (take k (planned_calls d n req)) @ [Call Rollback]"
  have "Release \<notin> set (take k (planned_calls d n req))"
    using planned_calls_kinds(2)[of d n req] by (auto dest: in_set_takeD)
  then have "Call Release \<notin> set ?pre" by auto
  then show ?thesis using rollback_failed(8) by (intro exI[of _ ?pre]) simp
qed

text \<open>C7 at a run whose second price lookup throws.\<close>

theorem connection_released_once_witness:
  "length (filter (\<lambda>e. e = Call Release)
     (trace (final (create_order (fault_at 3 ''ER_LOCK_DEADLOCK'') (alice [widget, gadget])
        (start shop 1))))) = 1 \<and>
   last (trace (final (create_order (fault_at 3 ''ER_LOCK_DEADLOCK'') (alice [widget, gadget])
        (start shop 1)))) = Call Release"
proof -
  let ?req = "alice [widget, gadget]"
  have hdr: "header_error ?req = None" by (simp add: run_defs)
  have conn: "fault_at 3 ''ER_LOCK_DEADLOCK'' 0 = None" by (simp add: fault_at_def)
  from connection_released_once[where faults = "fault_at 3 ''ER_LOCK_DEADLOCK''" and d = shop
      and n = 1, OF hdr conn]
  obtain pre where
    "trace (final (create_order (fault_at 3 ''ER_LOCK_DEADLOCK'') ?req (start shop 1))) =
       pre @ [Call Release]"
    "Call Release \<notin> set pre"
    by blast
  then show ?thesis by (auto simp: filter_empty_conv)
qed

subsection \<open>C8\<close>

text \<open>
  C8: the store calls of a run that creates the order are, in this order: the acquisition
  of the connection, the begin of the transaction, the price lookups of all line items in
  submission order, the insert of the order row (with the total computed in double
  precision from the prices looked up), the inserts of the item rows in submission order,
  each with the id the insert of the order row generated, and the commit. The store calls of any run, up to its rollback, response and release, are an
  initial segment of that sequence.
\<close>

theorem store_calls_in_order:
  "(\<forall>b. response (create_order faults req (start d n)) = Some (201, b) \<longrightarrow>
      trace (final (create_order faults req (start d n))) =
        [Call GetConnection, Call BeginTransaction] @
        map (\<lambda>it. Call (SelectPrice (to_number (product_id it)))) (arr_of (items req)) @
        [Call (InsertOrder (str_of (customerIdentifier req)) (str_of (customerName req))
           (foldl (\<lambda>t it. dadd t (dmul (to_double (authoritative_price d it))
                                        (to_number (quantity it))))
              (Fin 0) (arr_of (items req))) ''completed'')] @
        map (\<lambda>it. Call (InsertOrderItem n (to_number (product_id it)) (to_number (quantity it))
                          (authoritative_price d it) (str_of (name it))
                          (image_or_null (image_url it))))
          (arr_of (items req)) @
        [Call Commit, Respond 201 b, Call Release] \<and>
      (\<exists>row. orders (durable (final (create_order faults req (start d n)))) = orders d @ [row] \<and>
             order_id row = n)) \<and>
   (header_error req = None \<longrightarrow>
      (\<exists>k tail.
         trace (final (create_order faults req (start d n))) =
           Call GetConnection # map Call (take k (planned_calls d n req)) @ tail \<and>
         list_all (\<lambda>e. e = Call Rollback \<or> e = Call Release \<or> (\<exists>st bd. e = Respond st bd))
           tail))"
proof (intro conjI allI impI)
  fix b assume s: "response (create_order faults req (start d n)) = Some (201, b)"
  note run = created_run[OF s]
  show "trace (final (create_order faults req (start d n))) =
        [Call GetConnection, Call BeginTransaction] @
        map (\<lambda>it. Call (SelectPrice (to_number (product_id it)))) (arr_of (items req)) @
        [Call (InsertOrder (str_of (customerIdentifier req)) (str_of (customerName req))
           (foldl (\<lambda>t it. dadd t (dmul (to_double (authoritative_price d it))
                                        (to_number (quantity it))))
              (Fin 0) (arr_of (items req))) ''completed'')] @
        map (\<lambda>it. Call (InsertOrderItem n (to_number (product_id it)) (to_number (quantity it))
                          (authoritative_price d it) (str_of (name it))
                          (image_or_null (image_url it))))
          (arr_of (items req)) @
        [Call Commit, Respond 201 b, Call Release]"
    using run(6) run(2)
    by (simp add: planned_calls_explicit order_total_def running_total_def contribution_def
          o_def)
  show "\<exists>row. orders (durable (final (create_order faults req (start d n)))) = orders d @ [row] \<and>
             order_id row = n"
    using run(7) by (intro exI[of _ "new_order d n req"]) (simp add: new_order_def)
next
  assume hdr: "header_error req = None"
  then show "\<exists>k tail.
         trace (final (create_order faults req (start d n))) =
           Call GetConnection # map Call (take k (planned_calls d n req)) @ tail \<and>
         list_all (\<lambda>e. e = Call Rollback \<or> e = Call Release \<or> (\<exists>st bd. e = Respond st bd))
           tail"
  proof (cases rule: create_order_cases[of req faults d n])
    case (no_connection m)
    then show ?thesis
      by (intro exI[of _ 0] exI[of _ "[Respond 500 (Message (failure_message [Chars m]))]"])
        simp
  next
    case created
    then show ?thesis
      by (intro exI[of _ "length (planned_calls d n req)"]
            exI[of _ "[Respond 201 (created_body d n req), Call Release]"]) simp
  next
    case (rolled_back k e)
    then show ?thesis
      by (intro exI[of _ k]
            exI[of _ "[Call Rollback, Respond 500 (Message (failure_message e)), Call Release]"])
        simp
  next
    case (rollback_failed k e m)
    then show ?thesis
      by (intro exI[of _ k] exI[of _ "[Call Rollback, Call Release]"]) simp
  qed
qed

text \<open>C8 at the two-item example.\<close>

theorem store_calls_in_order_witness:
  "trace (final (create_order no_faults (alice [widget, gadget]) (start shop 1))) =
     [Call GetConnection, Call BeginTransaction, Call (SelectPrice (Fin 7)), Call (SelectPrice (Fin 9)),
      Call (InsertOrder ''c1'' ''Alice'' (Fin 35) ''completed''),
      Call (InsertOrderItem 1 (Fin 7) (Fin 3) 10 ''Widget'' (Some ''w.png'')),
      Call (InsertOrderItem 1 (Fin 9) (Fin 2) (5 / 2) ''Gadget'' None),
      Call Commit,
      Respond 201 (Created 1 (Val ''c1'') (Val ''Alice'') (Fin 35) ''completed''
        ''Pesanan berhasil dibuat.''),
      Call Release]"
proof -
  let ?r = "create_order no_faults (alice [widget, gadget]) (start shop 1)"
  have resp: "response ?r = Some (201, Created 1 (Val ''c1'') (Val ''Alice'') (Fin 35) ''completed''
        ''Pesanan berhasil dibuat.'')"
    by (simp add: run_defs)
  from store_calls_in_order[where faults = no_faults and req = "alice [widget, gadget]"
      and d = shop and n = 1] resp
  have "trace (final ?r) =
        [Call GetConnection, Call BeginTransaction] @
        map (\<lambda>it. Call (SelectPrice (to_number (product_id it))))
          (arr_of (items (alice [widget, gadget]))) @
        [Call (InsertOrder (str_of (customerIdentifier (alice [widget, gadget])))
           (str_of (customerName (alice [widget, gadget])))
           (foldl (\<lambda>t it. dadd t (dmul (to_double (authoritative_price shop it))
                                        (to_number (quantity it))))
              (Fin 0) (arr_of (items (alice [widget, gadget])))) ''completed'')] @
        map (\<lambda>it. Call (InsertOrderItem 1 (to_number (product_id it)) (to_number (quantity it))
                          (authoritative_price shop it) (str_of (name it))
                          (image_or_null (image_url it))))
          (arr_of (items (alice [widget, gadget]))) @
        [Call Commit,
         Respond 201 (Created 1 (Val ''c1'') (Val ''Alice'') (Fin 35) ''completed''
           ''Pesanan berhasil dibuat.''),
         Call Release]"
    by blast
  then show ?thesis
    by (simp add: alice_def widget_def gadget_def shop_def authoritative_price_def
          find_price_def image_or_null_def example_numbers)
qed

subsection \<open>C9\<close>

text \<open>
  C9: a line item whose \<^verbatim>\<open>product_id\<close>, \<^verbatim>\<open>quantity\<close> or \<^verbatim>\<open>price_at_order\<close> is 0 fails the
  check of the loop, as an item without that field does. A request that contains such an
  item is never answered 201 and persists nothing; when the run reaches the item (the
  early checks pass, the items before it pass the check and name products, and no call
  throws), the response reports invalid item details.
\<close>

theorem zero_fields_rejected:
  assumes zero: "product_id it = Val 0 \<or> quantity it = Val 0 \<or> price_at_order it = Val 0"
    and pos: "arr_of (items req) = pre @ it # post"
  shows "item_invalid it \<and>
         (\<forall>b. response (create_order faults req (start d n)) \<noteq> Some (201, b)) \<and>
         orders (durable (final (create_order faults req (start d n)))) = orders d \<and>
         order_items (durable (final (create_order faults req (start d n)))) = order_items d \<and>
         (header_error req = None \<and> (\<forall>x \<in> set pre. \<not> item_invalid x \<and> known d x) \<and>
          (\<forall>j < length pre + 3. faults j = None) \<longrightarrow>
            response (create_order faults req (start d n)) =
              Some (500, Message (failure_message invalid_item_message)))"
proof -
  have bad: "item_invalid it" using zero by (rule zero_is_invalid)
  have notc: "\<forall>b. response (create_order faults req (start d n)) \<noteq> Some (201, b)"
  proof (intro allI notI)
    fix b assume "response (create_order faults req (start d n)) = Some (201, b)"
    from created_run(4)[OF this] pos have "\<not> item_invalid it" by simp
    with bad show False by contradiction
  qed
  have same: "durable (final (create_order faults req (start d n))) = d"
    using notc by (rule not_created_durable)
  have "header_error req = None \<and> (\<forall>x \<in> set pre. \<not> item_invalid x \<and> known d x) \<and>
          (\<forall>j < length pre + 3. faults j = None) \<longrightarrow>
            response (create_order faults req (start d n)) =
              Some (500, Message (failure_message invalid_item_message))"
  proof
    assume a: "header_error req = None \<and> (\<forall>x \<in> set pre. \<not> item_invalid x \<and> known d x) \<and>
          (\<forall>j < length pre + 3. faults j = None)"
    then have h: "header_error req = None" "\<forall>x \<in> set pre. \<not> item_invalid x \<and> known d x"
      "\<forall>j < length pre + 3. faults j = None"
      by simp_all
    from create_order_item_fails(1)[OF h(1) pos h(2) bad h(3)]
    show "response (create_order faults req (start d n)) =
              Some (500, Message (failure_message invalid_item_message))"
      by simp
  qed
  with bad notc same show ?thesis by simp
qed

text \<open>C9 at a second item with \<^verbatim>\<open>price_at_order\<close> 0.\<close>

theorem zero_fields_rejected_witness:
  "item_invalid (gadget\<lparr>price_at_order := Val 0\<rparr>) \<and>
   response (create_order no_faults (alice [widget, gadget\<lparr>price_at_order := Val 0\<rparr>])
     (start shop 1)) =
     Some (500, Message [Chars ''Gagal membuat pesanan: '', Chars ''Detail item pesanan tidak valid: product_id, quantity, name, atau price_at_order kurang.'']) \<and>
   orders (durable (final (create_order no_faults
     (alice [widget, gadget\<lparr>price_at_order := Val 0\<rparr>]) (start shop 1)))) = [] \<and>
   order_items (durable (final (create_order no_faults
     (alice [widget, gadget\<lparr>price_at_order := Val 0\<rparr>]) (start shop 1)))) = []"
proof -
  let ?bad = "gadget\<lparr>price_at_order := Val 0\<rparr>"
  let ?req = "alice [widget, ?bad]"
  have zero: "product_id ?bad = Val 0 \<or> quantity ?bad = Val 0 \<or> price_at_order ?bad = Val 0"
    by simp
  have pos: "arr_of (items ?req) = [widget] @ ?bad # []" by (simp add: alice_def)
  have rest: "header_error ?req = None \<and>
      (\<forall>x \<in> set [widget]. \<not> item_invalid x \<and> known shop x) \<and>
      (\<forall>j < length [widget] + 3. no_faults j = None)"
    by (simp add: header_error_def alice_def trim_def js_space_def widget_def
          item_invalid_def known_dom shop_def falsy_num_def le_zero_def
          example_numbers no_faults_def)
  from zero_fields_rejected[OF zero pos, where faults = no_faults and d = shop and n = 1] rest
  show ?thesis
    by (simp add: shop_def failure_message_def invalid_item_message_def)
qed

subsection \<open>C10\<close>

text \<open>
  C10: whenever an order is created, the \<^verbatim>\<open>image_url\<close> of each persisted item row is the
  client's \<^verbatim>\<open>image_url\<close> when that is a non-empty string, and \<^verbatim>\<open>NULL\<close> when it is absent,
  \<^verbatim>\<open>null\<close> or the empty string.
\<close>

theorem image_url_normalised:
  assumes "response (create_order faults req (start d n)) = Some (201, b)"
  shows "map oi_image_url
           (drop (length (order_items d))
              (order_items (durable (final (create_order faults req (start d n)))))) =
         map (\<lambda>it. case image_url it of
                      Val s \<Rightarrow> if s = [] then None else Some s
                    | Undefined \<Rightarrow> None
                    | Null \<Rightarrow> None)
           (arr_of (items req))"
  using created_run(7)[OF assms]
  by (simp add: item_row_reconciled image_or_null_cases o_def)

text \<open>C10 at items with a file name, an empty string, \<^verbatim>\<open>null\<close> and no image.\<close>

theorem image_url_normalised_witness:
  "map oi_image_url
     (drop (length (order_items shop))
        (order_items (durable (final (create_order no_faults
           (alice [widget, gadget, widget\<lparr>image_url := Null\<rparr>, widget\<lparr>image_url := Undefined\<rparr>])
           (start shop 1)))))) =
   [Some ''w.png'', None, None, None]"
proof -
  let ?req = "alice [widget, gadget, widget\<lparr>image_url := Null\<rparr>, widget\<lparr>image_url := Undefined\<rparr>]"
  have hdr: "header_error ?req = None"
    by (simp add: header_error_def alice_def trim_def js_space_def)
  have valid: "\<forall>it \<in> set (arr_of (items ?req)). \<not> item_invalid it \<and> known shop it"
    by (simp add: alice_def widget_def gadget_def item_invalid_def known_dom shop_def falsy_num_def le_zero_def
          example_numbers)
  have nf: "\<forall>j < length (planned_calls shop 1 ?req) + 1. no_faults j = None"
    by (simp add: no_faults_def)
  from image_url_normalised[OF create_order_ok[OF hdr valid nf]]
  show ?thesis
    by (simp add: alice_def widget_def gadget_def)
qed

end
